theory Spec2Isabelle
  imports Main "HOL-Library.AList" "HOL-Library.Multiset"
begin

section \<open>JavaScript values and plain objects\<close>

text \<open>
  The module \<^verbatim>\<open>src/objects-tasks.js\<close> is a CommonJS script without a
  \<^verbatim>\<open>'use strict'\<close> directive, so its own statements run in sloppy mode.

  Scope of the model.  An object is its list of own enumerable data properties, kept
  in creation order, together with the flag set by \<^verbatim>\<open>Object.freeze\<close>.  Numbers are
  integers.  Only \<^verbatim>\<open>mergeObjects\<close> computes with them and reads a key that may be
  inherited; its section models the rounding of additions and the members of
  \<^verbatim>\<open>Object.prototype\<close>.  Elsewhere \<^verbatim>\<open>NaN\<close> and inherited properties are not
  represented.  Strings are lists of code units.
\<close>

datatype jsval = Undefined | Null | Bool bool | Num int | Str string

record 'v jsobj =
  props :: "(string \<times> 'v) list"
  frozen :: bool

text \<open>The two kinds of code that can touch an object, and the errors the module can see.\<close>

datatype mode = Sloppy | Strict

datatype error = TypeError | OrderError | DuplicateError

text \<open>An object literal: the listed properties, created left to right, not frozen.\<close>

definition literal :: "(string \<times> 'v) list \<Rightarrow> 'v jsobj" where
  "literal ps = \<lparr>props = foldl (\<lambda>m (k, v). AList.update k v m) [] ps, frozen = False\<rparr>"

subsection \<open>Property enumeration order\<close>

text \<open>
  \<^verbatim>\<open>Object.keys\<close> and \<^verbatim>\<open>Object.entries\<close> list the own properties whose key is an
  array index (a canonical decimal numeral below \<open>2^32 - 1\<close>) first, in ascending
  numeric order, and then the remaining string keys in creation order.
\<close>

definition is_digit :: "char \<Rightarrow> bool" where
  "is_digit c = (48 \<le> (of_char c :: nat) \<and> (of_char c :: nat) \<le> 57)"

definition num_of :: "string \<Rightarrow> nat" where
  "num_of s = foldl (\<lambda>n c. 10 * n + ((of_char c :: nat) - 48)) 0 s"

definition is_array_index :: "string \<Rightarrow> bool" where
  "is_array_index s =
     (s \<noteq> [] \<and> list_all is_digit s \<and> (if hd s = CHR ''0'' then s = ''0'' else True)
      \<and> num_of s < 2 ^ 32 - 1)"

definition Object_entries :: "'v jsobj \<Rightarrow> (string \<times> 'v) list" where
  "Object_entries obj =
     sort_key (\<lambda>p. num_of (fst p)) (filter (\<lambda>p. is_array_index (fst p)) (props obj))
     @ filter (\<lambda>p. \<not> is_array_index (fst p)) (props obj)"

definition Object_keys :: "'v jsobj \<Rightarrow> string list" where
  "Object_keys obj = map fst (Object_entries obj)"

subsection \<open>Property access\<close>

text \<open>\<^verbatim>\<open>obj[key]\<close>: the value of the own property, \<^verbatim>\<open>undefined\<close> when there is none.\<close>

definition get_prop :: "jsval jsobj \<Rightarrow> string \<Rightarrow> jsval" where
  "get_prop obj k = (case map_of (props obj) k of None \<Rightarrow> Undefined | Some v \<Rightarrow> v)"

text \<open>
  The internal methods \<^verbatim>\<open>[[Set]]\<close> and \<^verbatim>\<open>[[Delete]]\<close> of an ordinary object.
  Each returns whether it succeeded and the object afterwards.  A frozen object is not
  extensible and its properties are neither writable nor configurable, so \<^verbatim>\<open>[[Set]]\<close>
  always fails on it and \<^verbatim>\<open>[[Delete]]\<close> fails for a key it has.
\<close>

definition obj_set :: "'v jsobj \<Rightarrow> string \<Rightarrow> 'v \<Rightarrow> bool \<times> 'v jsobj" where
  "obj_set obj k v =
     (if frozen obj then (False, obj)
      else (True, obj\<lparr>props := AList.update k v (props obj)\<rparr>))"

definition obj_delete :: "'v jsobj \<Rightarrow> string \<Rightarrow> bool \<times> 'v jsobj" where
  "obj_delete obj k =
     (if frozen obj then (k \<notin> fst ` set (props obj), obj)
      else (True, obj\<lparr>props := AList.delete k (props obj)\<rparr>))"

text \<open>
  Objects are reached through references.  A store maps a reference to the object it
  denotes; a function of the module that mutates its argument takes the store and the
  reference and returns the store afterwards.
\<close>

type_synonym ref = nat
type_synonym 'v store = "ref \<Rightarrow> 'v jsobj"

text \<open>
  The statements \<^verbatim>\<open>o[k] = v\<close> and \<^verbatim>\<open>delete o[k]\<close>.  When the internal method
  reports failure, strict-mode code throws a \<^verbatim>\<open>TypeError\<close> and sloppy-mode code goes on.
\<close>

definition assign :: "mode \<Rightarrow> 'v store \<Rightarrow> ref \<Rightarrow> string \<Rightarrow> 'v \<Rightarrow> error + 'v store" where
  "assign m st r k v =
     (case obj_set (st r) k v of
        (ok, obj') \<Rightarrow> if \<not> ok \<and> m = Strict then Inl TypeError else Inr (st(r := obj')))"

definition delete_stmt :: "mode \<Rightarrow> 'v store \<Rightarrow> ref \<Rightarrow> string \<Rightarrow> error + 'v store" where
  "delete_stmt m st r k =
     (case obj_delete (st r) k of
        (ok, obj') \<Rightarrow> if \<not> ok \<and> m = Strict then Inl TypeError else Inr (st(r := obj')))"

section \<open>Object utilities\<close>

subsection \<open>removeProperties\<close>

text \<open>
  \<^verbatim>\<open>
  function removeProperties(obj, keys) {
    const objCorrected = obj;
    keys.forEach((key) => { delete objCorrected[key]; });
    return objCorrected;
  }
  \<close>
  \<^verbatim>\<open>objCorrected\<close> is a second name for the reference \<^verbatim>\<open>obj\<close>.  The \<^verbatim>\<open>delete\<close>
  is sloppy-mode code, so its outcome is discarded.
\<close>

definition removeProperties :: "'v store \<Rightarrow> ref \<Rightarrow> string list \<Rightarrow> 'v store \<times> ref" where
  "removeProperties st obj keys =
     (let objCorrected = obj
      in (foldl (\<lambda>s key. s(objCorrected := snd (obj_delete (s objCorrected) key))) st keys,
          objCorrected))"

subsection \<open>makeImmutable\<close>

text \<open>
  \<^verbatim>\<open>function makeImmutable(obj) { return Object.freeze(obj); }\<close>
  \<^verbatim>\<open>Object.freeze\<close> freezes its argument in place and returns it.
\<close>

definition makeImmutable :: "'v store \<Rightarrow> ref \<Rightarrow> 'v store \<times> ref" where
  "makeImmutable st obj = (st(obj := (st obj)\<lparr>frozen := True\<rparr>), obj)"

text \<open>A store in which every reference denotes the given object (for concrete runs).\<close>

definition store_of :: "'v jsobj \<Rightarrow> 'v store" where
  "store_of obj r = obj"

subsection \<open>mergeObjects\<close>

text \<open>
  \<^verbatim>\<open>
  function mergeObjects(objects) {
    const mergedObj = {};
    objects.forEach((obj) => {
      Object.entries(obj).forEach(([key, value]) => {
        if (mergedObj[key]) { mergedObj[key] += value; }
        else { mergedObj[key] = value; }
      });
    });
    return mergedObj;
  }
  \<close>
  The values of the objects passed in are finite numbers with an integer value.  What
  \<^verbatim>\<open>mergedObj\<close> can come to hold, and what \<^verbatim>\<open>mergedObj[key]\<close> can yield, is wider:
  a sum can overflow to an infinity, and \<^verbatim>\<open>mergedObj\<close> is an ordinary object, so a
  key it does not have is looked up in \<^verbatim>\<open>Object.prototype\<close>.  There \<^verbatim>\<open>__proto__\<close>
  is an accessor that yields the prototype object, and eleven keys name methods.
  Adding a number to a function, an object or a string gives a string, whose text the
  model does not keep.
\<close>

datatype mval =
  Undef | Number int | PosInfinity | NegInfinity | NotANumber
  | Text | Function | Prototype

definition Object_prototype_methods :: "string list" where
  "Object_prototype_methods =
     [''constructor'', ''__defineGetter__'', ''__defineSetter__'', ''hasOwnProperty'',
      ''__lookupGetter__'', ''__lookupSetter__'', ''isPrototypeOf'',
      ''propertyIsEnumerable'', ''toString'', ''valueOf'', ''toLocaleString'']"

text \<open>\<^verbatim>\<open>mergedObj[key]\<close>\<close>

definition lookup :: "mval jsobj \<Rightarrow> string \<Rightarrow> mval" where
  "lookup obj k =
     (case map_of (props obj) k of
        Some v \<Rightarrow> v
      | None \<Rightarrow> if k = ''__proto__'' then Prototype
                else if k \<in> set Object_prototype_methods then Function
                else Undef)"

text \<open>The condition of the \<^verbatim>\<open>if\<close>: every value but \<^verbatim>\<open>undefined\<close>, zero and \<^verbatim>\<open>NaN\<close>.\<close>

fun truthy :: "mval \<Rightarrow> bool" where
  "truthy Undef = False"
| "truthy (Number n) = (n \<noteq> 0)"
| "truthy NotANumber = False"
| "truthy v = True"

text \<open>
  Addition of numbers is that of IEEE 754 doubles.  On integers: the exact sum,
  rounded to 53 significant bits (to nearest, ties to even), and an infinity when that
  reaches \<open>2^1024\<close>.  \<open>excess n\<close> is the number of low bits of \<open>n\<close> that do not fit.
\<close>

function excess :: "nat \<Rightarrow> nat" where
  "excess n = (if n < 2 ^ 53 then 0 else Suc (excess (n div 2)))"
  by pat_completeness auto
termination
  by (relation "measure (\<lambda>n. n)") auto

declare excess.simps [simp del]

definition round53 :: "int \<Rightarrow> int" where
  "round53 x =
     (let n = nat \<bar>x\<bar>; u = 2 ^ excess n; q = n div u; r = n mod u;
          m = (if 2 * r < u then q else if u < 2 * r then q + 1
               else if even q then q else q + 1)
      in sgn x * int (m * u))"

definition to_double :: "int \<Rightarrow> mval" where
  "to_double x =
     (let r = round53 x
      in if 2 ^ 1024 \<le> r then PosInfinity
         else if r \<le> - (2 ^ 1024) then NegInfinity
         else Number r)"

text \<open>\<^verbatim>\<open>x + value\<close> for a value \<^verbatim>\<open>x\<close> read from \<^verbatim>\<open>mergedObj\<close> and a number \<^verbatim>\<open>value\<close>.\<close>

fun plus_value :: "mval \<Rightarrow> int \<Rightarrow> mval" where
  "plus_value (Number a) v = to_double (a + v)"
| "plus_value PosInfinity v = PosInfinity"
| "plus_value NegInfinity v = NegInfinity"
| "plus_value NotANumber v = NotANumber"
| "plus_value Undef v = NotANumber"
| "plus_value Text v = Text"
| "plus_value Function v = Text"
| "plus_value Prototype v = Text"

text \<open>
  \<^verbatim>\<open>mergedObj[key] = x\<close> for a number or string \<^verbatim>\<open>x\<close>: an own property is
  overwritten; otherwise the setter of \<^verbatim>\<open>__proto__\<close> ignores such a value, and any
  other key becomes a new own property.
\<close>

definition put :: "mval jsobj \<Rightarrow> string \<Rightarrow> mval \<Rightarrow> mval jsobj" where
  "put obj k x =
     (if k \<in> fst ` set (props obj) then snd (obj_set obj k x)
      else if k = ''__proto__'' then obj
      else snd (obj_set obj k x))"

definition merge_entry :: "mval jsobj \<Rightarrow> string \<times> int \<Rightarrow> mval jsobj" where
  "merge_entry mergedObj e =
     (case e of (key, value) \<Rightarrow>
        if truthy (lookup mergedObj key)
        then put mergedObj key (plus_value (lookup mergedObj key) value)
        else put mergedObj key (Number value))"

definition mergeObjects :: "int jsobj list \<Rightarrow> mval jsobj" where
  "mergeObjects objects =
     foldl (\<lambda>mergedObj obj. foldl merge_entry mergedObj (Object_entries obj))
       (literal []) objects"

text \<open>
  What the claim speaks of: the keys of a list in order of first appearance, and the
  sum of the values a key has across the given objects.
\<close>

fun first_seen :: "'a list \<Rightarrow> 'a list" where
  "first_seen [] = []"
| "first_seen (x # xs) = x # first_seen (removeAll x xs)"

definition key_total :: "int jsobj list \<Rightarrow> string \<Rightarrow> int" where
  "key_total objects k =
     sum_list (map snd (filter (\<lambda>p. fst p = k) (concat (map props objects))))"

text \<open>
  The objects for which the sums are what the claim says: no key is one that
  \<^verbatim>\<open>Object.prototype\<close> has, and the absolute values of all the numbers together do
  not exceed \<open>2^53\<close>, so that no addition rounds, in whatever order it is made.
\<close>

definition plain_keys :: "int jsobj list \<Rightarrow> bool" where
  "plain_keys objects =
     list_all (\<lambda>p. fst p \<noteq> ''__proto__'' \<and> fst p \<notin> set Object_prototype_methods)
       (concat (map props objects))"

definition exact_sums :: "int jsobj list \<Rightarrow> bool" where
  "exact_sums objects =
     (sum_list (map (\<lambda>p. \<bar>snd p\<bar>) (concat (map props objects))) \<le> 2 ^ 53)"

text \<open>Auxiliary notions for the proofs about \<^verbatim>\<open>mergeObjects\<close>.\<close>

definition total :: "(string \<times> int) list \<Rightarrow> string \<Rightarrow> int" where
  "total es k = sum_list (map snd (filter (\<lambda>p. fst p = k) es))"

definition num_at :: "(string \<times> int) list \<Rightarrow> string \<Rightarrow> int" where
  "num_at ps k = (case map_of ps k of None \<Rightarrow> 0 | Some n \<Rightarrow> n)"

definition add_key :: "'a list \<Rightarrow> 'a \<Rightarrow> 'a list" where
  "add_key acc k = (if k \<in> set acc then acc else acc @ [k])"

definition exact_step :: "(string \<times> int) list \<Rightarrow> string \<times> int \<Rightarrow> (string \<times> int) list" where
  "exact_step ps e = AList.update (fst e) (num_at ps (fst e) + snd e) ps"

definition numbers :: "(string \<times> int) list \<Rightarrow> (string \<times> mval) list" where
  "numbers ps = map (\<lambda>p. (fst p, Number (snd p))) ps"

definition abs_total :: "(string \<times> int) list \<Rightarrow> int" where
  "abs_total es = sum_list (map (\<lambda>p. \<bar>snd p\<bar>) es)"

subsection \<open>compareObjects\<close>

text \<open>
  \<^verbatim>\<open>
  function compareObjects(obj1, obj2) {
    const keyA = Object.keys(obj1);
    const keyB = Object.keys(obj2);
    if (keyA.length !== keyB.length) return false;
    return keyA.every((key) => obj1[key] === obj2[key]);
  }
  \<close>
  On the values of \<^typ>\<open>jsval\<close> (no \<^verbatim>\<open>NaN\<close>, no object references) strict equality
  \<^verbatim>\<open>===\<close> is equality.
\<close>

definition compareObjects :: "jsval jsobj \<Rightarrow> jsval jsobj \<Rightarrow> bool" where
  "compareObjects obj1 obj2 =
     (let keyA = Object_keys obj1; keyB = Object_keys obj2
      in if length keyA \<noteq> length keyB then False
         else list_all (\<lambda>key. get_prop obj1 key = get_prop obj2 key) keyA)"

section \<open>Ticket change simulator\<close>

text \<open>
  \<^verbatim>\<open>
  function sellTickets(queue) {
    const payments = { 25: 0, 50: 0 };
    for (let i = 0; i < queue.length; i += 1) {
      switch (queue[i]) {
        case 100: {
          let rest = 75;
          if (payments[50]) { rest -= 50; payments[50] -= 1; }
          while (rest > 0 && payments[25] > 0) { rest -= 25; payments[25] -= 1; }
          if (rest !== 0) return false;
          payments[queue[i]] += 1;
          break;
        }
        case 50:
          if (payments[25] === 0) return false;
          payments[25] -= 1;
          payments[50] += 1;
          break;
        default:
          payments[25] += 1;
          break;
      }
    }
    return true;
  }
  \<close>
  The ledger is the pair of counts \<^verbatim>\<open>payments[25]\<close> and \<^verbatim>\<open>payments[50]\<close>.  The
  assignment to \<^verbatim>\<open>payments[100]\<close> writes a slot that is never read, and is left out.
\<close>

record payments =
  p25 :: int
  p50 :: int

text \<open>The \<^verbatim>\<open>while\<close> loop, on \<^verbatim>\<open>rest\<close> and \<^verbatim>\<open>payments[25]\<close>.\<close>

function change_loop :: "int \<Rightarrow> int \<Rightarrow> int \<times> int" where
  "change_loop rest n25 =
     (if rest > 0 \<and> n25 > 0 then change_loop (rest - 25) (n25 - 1) else (rest, n25))"
  by pat_completeness auto
termination
  by (relation "measure (\<lambda>(rest, n25). nat rest)") auto

text \<open>The \<^verbatim>\<open>for\<close> loop over the queue, from the current ledger.\<close>

fun sell_from :: "payments \<Rightarrow> int list \<Rightarrow> bool" where
  "sell_from p [] = True"
| "sell_from p (bill # queue) =
     (if bill = 100 then
        (let (rest, p1) = (if p50 p \<noteq> 0 then (75 - 50, p\<lparr>p50 := p50 p - 1\<rparr>) else (75, p));
             (rest', n25) = change_loop rest (p25 p1)
         in if rest' \<noteq> 0 then False else sell_from (p1\<lparr>p25 := n25\<rparr>) queue)
      else if bill = 50 then
        (if p25 p = 0 then False
         else sell_from (p\<lparr>p25 := p25 p - 1, p50 := p50 p + 1\<rparr>) queue)
      else sell_from (p\<lparr>p25 := p25 p + 1\<rparr>) queue)"

definition sellTickets :: "int list \<Rightarrow> bool" where
  "sellTickets queue = sell_from \<lparr>p25 = 0, p50 = 0\<rparr> queue"

text \<open>
  The rule of the specification, in its own words: a till of 25s and 50s; a 25 is
  accepted; a 50 needs one 25 of change; a 100 needs 75 of change, a 50 first if there
  is one and 25s for the remainder.  \<open>None\<close> is a bill that cannot be served (the
  rule names no other denomination).
\<close>

fun serve :: "nat \<times> nat \<Rightarrow> int \<Rightarrow> (nat \<times> nat) option" where
  "serve (n25, n50) bill =
     (if bill = 25 then Some (n25 + 1, n50)
      else if bill = 50 then (if 1 \<le> n25 then Some (n25 - 1, n50 + 1) else None)
      else if bill = 100 then
        (if 1 \<le> n50 then (if 1 \<le> n25 then Some (n25 - 1, n50 - 1) else None)
         else (if 3 \<le> n25 then Some (n25 - 3, n50) else None))
      else None)"

fun serve_all :: "nat \<times> nat \<Rightarrow> int list \<Rightarrow> (nat \<times> nat) option" where
  "serve_all till [] = Some till"
| "serve_all till (bill # queue) =
     (case serve till bill of None \<Rightarrow> None | Some till' \<Rightarrow> serve_all till' queue)"

section \<open>City sort\<close>

text \<open>
  \<^verbatim>\<open>
  function sortCitiesArray(arr) {
    const arrayToSort = arr;
    arrayToSort.sort((a, b) => {
      let isABigger = 0;
      if (a.country[0] === b.country[0]) {
        isABigger = a.city[0] > b.city[0] ? 1 : -1;
      } else {
        isABigger = a.country[0] > b.country[0] ? 1 : -1;
      }
      return isABigger;
    });
    return arrayToSort;
  }
  \<close>
  \<^verbatim>\<open>s[0]\<close> is the first code unit of \<^verbatim>\<open>s\<close>, and \<^verbatim>\<open>undefined\<close> for the empty
  string.  \<^verbatim>\<open>>\<close> compares two code units by their number; with \<^verbatim>\<open>undefined\<close> on
  either side it is false.
\<close>

record city_rec =
  country :: string
  city :: string

definition first_char :: "string \<Rightarrow> char option" where
  "first_char s = (case s of [] \<Rightarrow> None | c # _ \<Rightarrow> Some c)"

fun js_gt :: "char option \<Rightarrow> char option \<Rightarrow> bool" where
  "js_gt (Some x) (Some y) = ((of_char x :: nat) > of_char y)"
| "js_gt _ _ = False"

definition compare_cities :: "city_rec \<Rightarrow> city_rec \<Rightarrow> int" where
  "compare_cities a b =
     (if first_char (country a) = first_char (country b)
      then (if js_gt (first_char (city a)) (first_char (city b)) then 1 else - 1)
      else (if js_gt (first_char (country a)) (first_char (country b)) then 1 else - 1))"

text \<open>
  \<^verbatim>\<open>Array.prototype.sort\<close> belongs to the runtime.  It is modelled as insertion sort
  steered by the sign of the comparator: each element in turn is put into the sorted
  prefix, after the elements the comparator places it after (a positive result) and
  before the first one it does not.
\<close>

fun sort_insert :: "('a \<Rightarrow> 'a \<Rightarrow> int) \<Rightarrow> 'a \<Rightarrow> 'a list \<Rightarrow> 'a list" where
  "sort_insert cmp x [] = [x]"
| "sort_insert cmp x (y # ys) =
     (if cmp x y > 0 then y # sort_insert cmp x ys else x # y # ys)"

definition Array_sort :: "('a \<Rightarrow> 'a \<Rightarrow> int) \<Rightarrow> 'a list \<Rightarrow> 'a list" where
  "Array_sort cmp xs = foldl (\<lambda>sorted x. sort_insert cmp x sorted) [] xs"

text \<open>Arrays are reached through references, as objects are; the sort works in place.\<close>

type_synonym 'a arrays = "ref \<Rightarrow> 'a list"

definition sortCitiesArray :: "city_rec arrays \<Rightarrow> ref \<Rightarrow> city_rec arrays \<times> ref" where
  "sortCitiesArray st arr =
     (let arrayToSort = arr
      in (st(arrayToSort := Array_sort compare_cities (st arrayToSort)), arrayToSort))"

text \<open>
  The order the claim speaks of: by the first character of the country, then by the
  first character of the city, ascending.
\<close>

definition first_chars_le :: "city_rec \<Rightarrow> city_rec \<Rightarrow> bool" where
  "first_chars_le a b =
     ((of_char (hd (country a)) :: nat) < of_char (hd (country b))
      \<or> (hd (country a) = hd (country b)
          \<and> (of_char (hd (city a)) :: nat) \<le> of_char (hd (city b))))"

definition named :: "city_rec \<Rightarrow> bool" where
  "named r = (country r \<noteq> [] \<and> city r \<noteq> [])"

definition arrays_of :: "'a list \<Rightarrow> 'a arrays" where
  "arrays_of xs r = xs"

section \<open>Grouping\<close>

text \<open>
  \<^verbatim>\<open>
  function group(array, keySelector, valueSelector) {
    const arrayMap = array.map((element) => {
      const pair = [keySelector(element)];
      const values = array.reduce((acc, item) => {
        if (keySelector(element) === keySelector(item)) { acc.push(valueSelector(item)); }
        return acc;
      }, []);
      pair.push(values);
      return pair;
    });
    return new Map(arrayMap);
  }
  \<close>
  A \<^verbatim>\<open>Map\<close> is its list of entries in insertion order.  \<^verbatim>\<open>set\<close> replaces the value
  of a key that is present, in place, and appends an entry for a new key;
  \<^verbatim>\<open>new Map(pairs)\<close> sets the pairs one after the other.  The selectors are pure, and
  \<^verbatim>\<open>===\<close> on the keys is equality.
\<close>

type_synonym ('k, 'v) jsmap = "('k \<times> 'v) list"

definition Map_set :: "('k, 'v) jsmap \<Rightarrow> 'k \<Rightarrow> 'v \<Rightarrow> ('k, 'v) jsmap" where
  "Map_set m k v = AList.update k v m"

definition new_Map :: "('k \<times> 'v) list \<Rightarrow> ('k, 'v) jsmap" where
  "new_Map pairs = foldl (\<lambda>m pair. Map_set m (fst pair) (snd pair)) [] pairs"

definition group :: "'a list \<Rightarrow> ('a \<Rightarrow> 'k) \<Rightarrow> ('a \<Rightarrow> 'v) \<Rightarrow> ('k, 'v list) jsmap" where
  "group array keySelector valueSelector =
     (let arrayMap =
        map (\<lambda>element.
               let values = foldl (\<lambda>acc item.
                     if keySelector element = keySelector item
                     then acc @ [valueSelector item] else acc) [] array
               in (keySelector element, values)) array
      in new_Map arrayMap)"

section \<open>CSS selector builder\<close>

text \<open>
  \<^verbatim>\<open>cssSelectorBuilder\<close> is one object with the fields \<^verbatim>\<open>selectors\<close> (an array of
  fragments \<^verbatim>\<open>{ selector, type }\<close>), \<^verbatim>\<open>order\<close> and the methods.  Every method builds
  \<^verbatim>\<open>copyThis\<close> with \<^verbatim>\<open>Object.assign(copyThis, this)\<close>, which copies the reference
  to the array, not the array; it then pushes onto that array through \<^verbatim>\<open>copyThis\<close>
  and gives \<^verbatim>\<open>this\<close> a new empty array.  The heap therefore keeps arrays and builder
  objects apart: an object is the reference its \<^verbatim>\<open>selectors\<close> field holds.  The field
  \<^verbatim>\<open>order\<close> and the methods are the same in every copy and are never written.
\<close>

record fragment =
  selector :: string
  type :: string

record heap =
  arrays :: "ref \<Rightarrow> fragment list"
  selectors :: "ref \<Rightarrow> ref"
  next_array :: ref
  next_object :: ref

definition order :: "string list" where
  "order = [''element'', ''id'', ''class'', ''attr'', ''pseudoclass'', ''pseudoelement'']"

text \<open>The module as loaded: the builder is object \<open>0\<close>, its \<^verbatim>\<open>selectors\<close> the empty array \<open>0\<close>.\<close>

definition cssSelectorBuilder :: ref where
  "cssSelectorBuilder = 0"

definition loaded :: heap where
  "loaded = \<lparr>arrays = (\<lambda>a. []), selectors = (\<lambda>obj. 0), next_array = 1, next_object = 1\<rparr>"

text \<open>\<^verbatim>\<open>this.selectors\<close> read as a list, \<^verbatim>\<open>{}\<close>, \<^verbatim>\<open>[]\<close>, \<^verbatim>\<open>Object.assign\<close>, \<^verbatim>\<open>push\<close>.\<close>

definition fragments :: "heap \<Rightarrow> ref \<Rightarrow> fragment list" where
  "fragments h obj = arrays h (selectors h obj)"

definition new_object :: "heap \<Rightarrow> heap \<times> ref" where
  "new_object h = (h\<lparr>next_object := next_object h + 1\<rparr>, next_object h)"

definition new_array :: "heap \<Rightarrow> heap \<times> ref" where
  "new_array h =
     (h\<lparr>arrays := (arrays h)(next_array h := []), next_array := next_array h + 1\<rparr>,
      next_array h)"

definition Object_assign :: "heap \<Rightarrow> ref \<Rightarrow> ref \<Rightarrow> heap" where
  "Object_assign h target source = h\<lparr>selectors := (selectors h)(target := selectors h source)\<rparr>"

definition push :: "heap \<Rightarrow> ref \<Rightarrow> fragment list \<Rightarrow> heap" where
  "push h a items = h\<lparr>arrays := (arrays h)(a := arrays h a @ items)\<rparr>"

text \<open>\<^verbatim>\<open>this.selectors = []\<close>\<close>

definition reset :: "heap \<Rightarrow> ref \<Rightarrow> heap" where
  "reset h this = (case new_array h of (h', a) \<Rightarrow> h'\<lparr>selectors := (selectors h')(this := a)\<rparr>)"

text \<open>
  \<^verbatim>\<open>
  checkOrder(n) {
    if (this.selectors.length) {
      const lastElements = this.selectors.map((selector) => selector.type);
      if (this.order.slice(n).some((e) => lastElements.includes(e)))
        throw new Error('Selector parts should be arranged in the following order: ...');
    }
  },
  checkType(type) {
    if (this.selectors.filter((e) => e.type === type).length >= 1)
      throw new Error('Element, id and pseudo-element should not occur more then one time ...');
  },
  \<close>
\<close>

definition checkOrder :: "heap \<Rightarrow> ref \<Rightarrow> nat \<Rightarrow> error + unit" where
  "checkOrder h this n =
     (if length (fragments h this) \<noteq> 0 then
        (let lastElements = map type (fragments h this)
         in if list_ex (\<lambda>e. e \<in> set lastElements) (drop n order) then Inl OrderError
            else Inr ())
      else Inr ())"

definition checkType :: "heap \<Rightarrow> ref \<Rightarrow> string \<Rightarrow> error + unit" where
  "checkType h this t =
     (if length (filter (\<lambda>e. type e = t) (fragments h this)) \<ge> 1 then Inl DuplicateError
      else Inr ())"

text \<open>
  The four statements every fragment-adding method ends with:
  \<^verbatim>\<open>
    Object.assign(copyThis, this);
    copyThis.selectors.push({ selector: ..., type: ... });
    this.selectors = [];
    return copyThis;
  \<close>
\<close>

definition extend :: "heap \<Rightarrow> ref \<Rightarrow> ref \<Rightarrow> fragment \<Rightarrow> heap \<times> ref" where
  "extend h this copyThis item =
     (let h1 = Object_assign h copyThis this;
          h2 = push h1 (selectors h1 copyThis) [item];
          h3 = reset h2 this
      in (h3, copyThis))"

text \<open>
  The methods, statement by statement.  \<^verbatim>\<open>id\<close> and \<^verbatim>\<open>class\<close> are written \<open>id'\<close> and
  \<open>class'\<close>.  A template literal such as \<^verbatim>\<open>`#${value}`\<close> is a concatenation.
  \<^verbatim>\<open>
  element(value) {
    this.checkType('element');
    this.checkOrder(1);
    const copyThis = {};
    Object.assign(copyThis, this);
    copyThis.selectors.push({ selector: value, type: 'element' });
    this.selectors = [];
    return copyThis;
  },
  id(value) {
    const copyThis = {};
    this.checkType('id');
    this.checkOrder(2);
    ... push({ selector: `#${value}`, type: 'id' }) ...
  },
  class(value)         { this.checkOrder(3); ... `.${value}`,  'class' ... },
  attr(value)          { this.checkOrder(4); ... `[${value}]`, 'attr' ... },
  pseudoClass(value)   { this.checkOrder(5); ... `:${value}`,  'pseudoclass' ... },
  pseudoElement(value) { this.checkType('pseudoelement'); ... `::${value}`, 'pseudoelement' ... },
  \<close>
\<close>

definition element :: "heap \<Rightarrow> ref \<Rightarrow> string \<Rightarrow> error + heap \<times> ref" where
  "element h this value =
     (case checkType h this ''element'' of Inl e \<Rightarrow> Inl e | Inr _ \<Rightarrow>
      case checkOrder h this 1 of Inl e \<Rightarrow> Inl e | Inr _ \<Rightarrow>
      case new_object h of (h1, copyThis) \<Rightarrow>
        Inr (extend h1 this copyThis \<lparr>selector = value, type = ''element''\<rparr>))"

definition id' :: "heap \<Rightarrow> ref \<Rightarrow> string \<Rightarrow> error + heap \<times> ref" where
  "id' h this value =
     (case new_object h of (h1, copyThis) \<Rightarrow>
      case checkType h1 this ''id'' of Inl e \<Rightarrow> Inl e | Inr _ \<Rightarrow>
      case checkOrder h1 this 2 of Inl e \<Rightarrow> Inl e | Inr _ \<Rightarrow>
        Inr (extend h1 this copyThis \<lparr>selector = ''#'' @ value, type = ''id''\<rparr>))"

definition class' :: "heap \<Rightarrow> ref \<Rightarrow> string \<Rightarrow> error + heap \<times> ref" where
  "class' h this value =
     (case checkOrder h this 3 of Inl e \<Rightarrow> Inl e | Inr _ \<Rightarrow>
      case new_object h of (h1, copyThis) \<Rightarrow>
        Inr (extend h1 this copyThis \<lparr>selector = ''.'' @ value, type = ''class''\<rparr>))"

definition attr :: "heap \<Rightarrow> ref \<Rightarrow> string \<Rightarrow> error + heap \<times> ref" where
  "attr h this value =
     (case checkOrder h this 4 of Inl e \<Rightarrow> Inl e | Inr _ \<Rightarrow>
      case new_object h of (h1, copyThis) \<Rightarrow>
        Inr (extend h1 this copyThis \<lparr>selector = ''['' @ value @ '']'', type = ''attr''\<rparr>))"

definition pseudoClass :: "heap \<Rightarrow> ref \<Rightarrow> string \<Rightarrow> error + heap \<times> ref" where
  "pseudoClass h this value =
     (case checkOrder h this 5 of Inl e \<Rightarrow> Inl e | Inr _ \<Rightarrow>
      case new_object h of (h1, copyThis) \<Rightarrow>
        Inr (extend h1 this copyThis \<lparr>selector = '':'' @ value, type = ''pseudoclass''\<rparr>))"

definition pseudoElement :: "heap \<Rightarrow> ref \<Rightarrow> string \<Rightarrow> error + heap \<times> ref" where
  "pseudoElement h this value =
     (case checkType h this ''pseudoelement'' of Inl e \<Rightarrow> Inl e | Inr _ \<Rightarrow>
      case new_object h of (h1, copyThis) \<Rightarrow>
        Inr (extend h1 this copyThis \<lparr>selector = ''::'' @ value, type = ''pseudoelement''\<rparr>))"

text \<open>
  \<^verbatim>\<open>
  combine(selector1, combinator, selector2) {
    const copyThis = {};
    Object.assign(copyThis, this);
    copyThis.selectors.push(
      ...selector1.selectors,
      { selector: ` ${combinator} `, type: 'combinator' },
      ...selector2.selectors
    );
    this.selectors = [];
    return copyThis;
  },
  stringify() {
    const result = this.selectors.map((item) => item.selector).join('');
    this.selectors = [];
    return result;
  },
  \<close>
  The arguments of \<^verbatim>\<open>push\<close> are evaluated before it runs.
\<close>

definition combine :: "heap \<Rightarrow> ref \<Rightarrow> ref \<Rightarrow> string \<Rightarrow> ref \<Rightarrow> heap \<times> ref" where
  "combine h this selector1 combinator selector2 =
     (case new_object h of (h1, copyThis) \<Rightarrow>
        let h2 = Object_assign h1 copyThis this;
            items = fragments h2 selector1
                    @ [\<lparr>selector = '' '' @ combinator @ '' '', type = ''combinator''\<rparr>]
                    @ fragments h2 selector2;
            h3 = push h2 (selectors h2 copyThis) items;
            h4 = reset h3 this
        in (h4, copyThis))"

definition stringify :: "heap \<Rightarrow> ref \<Rightarrow> heap \<times> string" where
  "stringify h this =
     (let result = concat (map selector (fragments h this));
          h1 = reset h this
      in (h1, result))"

text \<open>
  Method chains \<^verbatim>\<open>b.m1(v1).m2(v2)...\<close>: each call is made on the result of the one
  before, and an exception ends the chain.
\<close>

datatype call =
  Element string | Id string | Class string | Attr string
  | PseudoClass string | PseudoElement string

fun invoke :: "heap \<Rightarrow> ref \<Rightarrow> call \<Rightarrow> error + heap \<times> ref" where
  "invoke h this (Element v) = element h this v"
| "invoke h this (Id v) = id' h this v"
| "invoke h this (Class v) = class' h this v"
| "invoke h this (Attr v) = attr h this v"
| "invoke h this (PseudoClass v) = pseudoClass h this v"
| "invoke h this (PseudoElement v) = pseudoElement h this v"

fun chain :: "heap \<Rightarrow> ref \<Rightarrow> call list \<Rightarrow> error + heap \<times> ref" where
  "chain h this [] = Inr (h, this)"
| "chain h this (c # cs) =
     (case invoke h this c of Inl e \<Rightarrow> Inl e | Inr (h', r) \<Rightarrow> chain h' r cs)"

text \<open>
  What the claims speak of: the kind of fragment a call adds and the fragment itself,
  the kinds that come later than a kind in the fixed order, a call that repeats a kind
  which may occur once, and a call whose kind comes earlier than a kind already present.
\<close>

fun kind :: "call \<Rightarrow> string" where
  "kind (Element v) = ''element''"
| "kind (Id v) = ''id''"
| "kind (Class v) = ''class''"
| "kind (Attr v) = ''attr''"
| "kind (PseudoClass v) = ''pseudoclass''"
| "kind (PseudoElement v) = ''pseudoelement''"

fun fragment_of :: "call \<Rightarrow> fragment" where
  "fragment_of (Element v) = \<lparr>selector = v, type = ''element''\<rparr>"
| "fragment_of (Id v) = \<lparr>selector = ''#'' @ v, type = ''id''\<rparr>"
| "fragment_of (Class v) = \<lparr>selector = ''.'' @ v, type = ''class''\<rparr>"
| "fragment_of (Attr v) = \<lparr>selector = ''['' @ v @ '']'', type = ''attr''\<rparr>"
| "fragment_of (PseudoClass v) = \<lparr>selector = '':'' @ v, type = ''pseudoclass''\<rparr>"
| "fragment_of (PseudoElement v) = \<lparr>selector = ''::'' @ v, type = ''pseudoelement''\<rparr>"

definition later_kinds :: "string \<Rightarrow> string list" where
  "later_kinds k = tl (dropWhile (\<lambda>t. t \<noteq> k) order)"

definition duplicate :: "fragment list \<Rightarrow> call \<Rightarrow> bool" where
  "duplicate fs c =
     (kind c \<in> {''element'', ''id'', ''pseudoelement''} \<and> kind c \<in> type ` set fs)"

definition out_of_order :: "fragment list \<Rightarrow> call \<Rightarrow> bool" where
  "out_of_order fs c =
     list_ex (\<lambda>f. type f \<in> set (later_kinds (kind c))) fs"

text \<open>A builder object of the heap: allocated, and so is its array.\<close>

definition allocated :: "heap \<Rightarrow> ref \<Rightarrow> bool" where
  "allocated h obj = (obj < next_object h \<and> selectors h obj < next_array h)"

text \<open>The chain \<^verbatim>\<open>b.m1(v1)...mn(vn).stringify()\<close>.\<close>

definition stringify_chain :: "heap \<Rightarrow> ref \<Rightarrow> call list \<Rightarrow> error + string" where
  "stringify_chain h b cs =
     (case chain h b cs of Inl e \<Rightarrow> Inl e | Inr (h', r) \<Rightarrow> Inr (snd (stringify h' r)))"


section \<open>Verification\<close>

subsection \<open>removeProperties\<close>

lemma fold_delete_props:
  "foldl (\<lambda>ps k. AList.delete k ps) ps keys = filter (\<lambda>p. fst p \<notin> set keys) ps"
  by (induction keys arbitrary: ps) (auto simp: AList.delete_eq intro: filter_cong)

lemma removeProperties_store_unfrozen:
  "\<not> frozen (st obj) \<Longrightarrow>
   foldl (\<lambda>s key. s(obj := snd (obj_delete (s obj) key))) st keys
     = st(obj := (st obj)\<lparr>props := foldl (\<lambda>ps k. AList.delete k ps) (props (st obj)) keys\<rparr>)"
  by (induction keys arbitrary: st) (auto simp: obj_delete_def)

lemma removeProperties_store_frozen:
  "frozen (st obj) \<Longrightarrow>
   foldl (\<lambda>s key. s(obj := snd (obj_delete (s obj) key))) st keys = st"
  by (induction keys arbitrary: st) (auto simp: obj_delete_def)

text \<open>
  C3, as amended.  \<^verbatim>\<open>removeProperties(obj, keys)\<close> returns the reference it was given
  and works on the object in place: afterwards the object holds exactly its former
  properties whose key is not listed (a listed key that is absent changes nothing), no
  other object is touched, and a frozen object is left as it was.
\<close>

theorem removeProperties_in_place:
  "removeProperties st obj keys =
     (st(obj := (if frozen (st obj) then st obj
                 else (st obj)\<lparr>props := filter (\<lambda>p. fst p \<notin> set keys) (props (st obj))\<rparr>)),
      obj)"
  by (simp add: removeProperties_def removeProperties_store_unfrozen
      removeProperties_store_frozen fold_delete_props)

text \<open>The second example of the documentation: removing absent keys changes nothing.\<close>

theorem removeProperties_in_place_witness:
  "props (fst (removeProperties
        (store_of (literal [(''a'', 1::int), (''b'', 2), (''c'', 3)])) 0 [''d'', ''e'']) 0)
     = [(''a'', 1), (''b'', 2), (''c'', 3)]"
  using removeProperties_in_place
    [of "store_of (literal [(''a'', 1::int), (''b'', 2), (''c'', 3)])" 0 "[''d'', ''e'']"]
  by (simp add: store_of_def literal_def)

text \<open>
  C3 as stated fails: in the first example of the documentation the object passed in
  is \<open>{a: 1}\<close> after the call, and the reference returned is the one passed in.
\<close>

theorem removeProperties_input_changed:
  "props (store_of (literal [(''a'', 1::int), (''b'', 2), (''c'', 3)]) 0)
     = [(''a'', 1), (''b'', 2), (''c'', 3)]
   \<and> props (fst (removeProperties
          (store_of (literal [(''a'', 1::int), (''b'', 2), (''c'', 3)])) 0 [''b'', ''c'']) 0)
     = [(''a'', 1)]
   \<and> snd (removeProperties
          (store_of (literal [(''a'', 1::int), (''b'', 2), (''c'', 3)])) 0 [''b'', ''c'']) = 0"
  by (simp add: removeProperties_def obj_delete_def store_of_def literal_def AList.delete_eq)

subsection \<open>sellTickets\<close>

lemma change_loop_25:
  "0 \<le> n \<Longrightarrow> change_loop 25 n = (if 0 < n then (0, n - 1) else (25, n))"
  by (simp add: change_loop.simps[of 25] change_loop.simps[of 0])

lemma change_loop_75:
  "0 \<le> n \<Longrightarrow> change_loop 75 n =
     (if 3 \<le> n then (0, n - 3) else if n = 2 then (25, 0) else if n = 1 then (50, 0) else (75, n))"
  by (simp add: change_loop.simps[of 75] change_loop.simps[of 50] change_loop.simps[of 25]
      change_loop.simps[of 0])

lemma sell_from_serve_all:
  "p25 p = int a \<Longrightarrow> p50 p = int b \<Longrightarrow> set queue \<subseteq> {25, 50, 100} \<Longrightarrow>
   sell_from p queue = (serve_all (a, b) queue \<noteq> None)"
proof (induction queue arbitrary: p a b)
  case Nil
  then show ?case by simp
next
  case (Cons bill queue)
  from Cons.prems have bills: "bill = 25 \<or> bill = 50 \<or> bill = 100" and rest: "set queue \<subseteq> {25, 50, 100}"
    by auto
  from bills show ?case
  proof (elim disjE)
    assume b: "bill = 25"
    have "sell_from (p\<lparr>p25 := p25 p + 1\<rparr>) queue = (serve_all (a + 1, b) queue \<noteq> None)"
      by (rule Cons.IH) (use Cons.prems rest in auto)
    with b show ?thesis by simp
  next
    assume b: "bill = 50"
    show ?thesis
    proof (cases "a = 0")
      case True
      with b Cons.prems show ?thesis by simp
    next
      case False
      have "sell_from (p\<lparr>p25 := p25 p - 1, p50 := p50 p + 1\<rparr>) queue
              = (serve_all (a - 1, b + 1) queue \<noteq> None)"
        by (rule Cons.IH) (use Cons.prems rest False in auto)
      with b False Cons.prems show ?thesis by simp
    qed
  next
    assume b: "bill = 100"
    show ?thesis
    proof (cases "b = 0")
      case True
      note b0 = this
      show ?thesis
      proof (cases "3 \<le> a")
        case True
        have "sell_from (p\<lparr>p25 := p25 p - 3\<rparr>) queue = (serve_all (a - 3, b) queue \<noteq> None)"
          by (rule Cons.IH) (use Cons.prems rest True in auto)
        with b b0 True Cons.prems show ?thesis
          by (simp add: change_loop_75)
      next
        case False
        with b b0 Cons.prems show ?thesis
          by (simp add: change_loop_75)
      qed
    next
      case False
      note b1 = this
      show ?thesis
      proof (cases "a = 0")
        case True
        with b b1 Cons.prems show ?thesis
          by (simp add: change_loop_25)
      next
        case False
        have "sell_from (p\<lparr>p50 := p50 p - 1, p25 := p25 p - 1\<rparr>) queue
                = (serve_all (a - 1, b - 1) queue \<noteq> None)"
          by (rule Cons.IH) (use Cons.prems rest False b1 in auto)
        with b b1 False Cons.prems show ?thesis
          by (simp add: change_loop_25)
      qed
    qed
  qed
qed

lemma serve_all_append:
  "serve_all till (xs @ ys) =
     (case serve_all till xs of None \<Rightarrow> None | Some till' \<Rightarrow> serve_all till' ys)"
  by (induction xs arbitrary: till) (auto split: option.splits)

text \<open>
  C2.  For a queue of bills of 25, 50 and 100, \<^verbatim>\<open>sellTickets\<close> returns true exactly
  when the rule of the specification serves every bill from an empty till; it returns
  false as soon as one bill cannot be served, whatever follows;
  \<^verbatim>\<open>sellTickets([25,25,50])\<close> is true and \<^verbatim>\<open>sellTickets([25,100])\<close> is false.
\<close>

theorem sellTickets_serves_every_bill:
  "(set queue \<subseteq> {25, 50, 100} \<longrightarrow> sellTickets queue = (serve_all (0, 0) queue \<noteq> None))
   \<and> (set (served @ bill # waiting) \<subseteq> {25, 50, 100} \<longrightarrow>
        serve_all (0, 0) served = Some till \<longrightarrow> serve till bill = None \<longrightarrow>
        \<not> sellTickets (served @ bill # waiting))
   \<and> sellTickets [25, 25, 50] \<and> \<not> sellTickets [25, 100]"
proof -
  have iff: "sellTickets q = (serve_all (0, 0) q \<noteq> None)" if "set q \<subseteq> {25, 50, 100}" for q
    unfolding sellTickets_def using that by (intro sell_from_serve_all) simp_all
  have "\<not> sellTickets (served @ bill # waiting)"
    if "set (served @ bill # waiting) \<subseteq> {25, 50, 100}"
      and "serve_all (0, 0) served = Some till" and "serve till bill = None"
    using iff [OF that(1)] that(2,3) by (simp add: serve_all_append)
  moreover have "sellTickets [25, 25, 50]"
    by (simp add: sellTickets_def)
  moreover have "\<not> sellTickets [25, 100]"
    by (simp add: sellTickets_def change_loop_75)
  ultimately show ?thesis using iff by blast
qed

text \<open>The queue \<open>[25,25,25,100,100]\<close>: the first 100 takes the three 25s, the second fails.\<close>

theorem sellTickets_serves_every_bill_witness:
  "set [25, 25, 25, 100, 100] \<subseteq> {25, 50, 100 :: int}
   \<and> serve_all (0, 0) [25, 25, 25, 100] = Some (0, 0)
   \<and> serve (0, 0) 100 = None
   \<and> sellTickets [25, 25, 25, 100, 100] = (serve_all (0, 0) [25, 25, 25, 100, 100] \<noteq> None)
   \<and> \<not> sellTickets [25, 25, 25, 100, 100]"
  using sellTickets_serves_every_bill [of "[25, 25, 25, 100, 100]" "[25, 25, 25, 100]" 100 "[]" "(0, 0)"]
  by simp

subsection \<open>compareObjects\<close>

lemma set_Object_keys: "set (Object_keys obj) = fst ` set (props obj)"
  by (auto simp: Object_keys_def Object_entries_def)

lemma length_Object_keys: "length (Object_keys obj) = length (props obj)"
proof -
  have "length (filter (\<lambda>p. is_array_index (fst p)) (props obj))
          + length (filter (\<lambda>p. \<not> is_array_index (fst p)) (props obj)) = length (props obj)"
    by (rule sum_length_filter_compl)
  then show ?thesis
    by (simp add: Object_keys_def Object_entries_def)
qed

text \<open>
  What does hold of \<^verbatim>\<open>compareObjects\<close>: it is reflexive, false when the numbers of keys
  differ, and symmetric on objects none of whose properties holds \<^verbatim>\<open>undefined\<close>.
\<close>

lemma compareObjects_refl: "compareObjects obj obj"
  by (simp add: compareObjects_def list_all_iff)

lemma compareObjects_sizes:
  "length (Object_keys obj1) \<noteq> length (Object_keys obj2) \<Longrightarrow> \<not> compareObjects obj1 obj2"
  by (simp add: compareObjects_def)

lemma get_prop_defined:
  "k \<in> fst ` set (props obj) \<Longrightarrow> Undefined \<notin> snd ` set (props obj) \<Longrightarrow> get_prop obj k \<noteq> Undefined"
proof -
  assume k: "k \<in> fst ` set (props obj)" and u: "Undefined \<notin> snd ` set (props obj)"
  from k obtain v where v: "map_of (props obj) k = Some v"
    by (metis (no_types) domD dom_map_of_conv_image_fst)
  then have "(k, v) \<in> set (props obj)" by (rule map_of_SomeD)
  with u have "v \<noteq> Undefined" by force
  with v show ?thesis by (simp add: get_prop_def)
qed

lemma get_prop_absent: "k \<notin> fst ` set (props obj) \<Longrightarrow> get_prop obj k = Undefined"
proof -
  assume "k \<notin> fst ` set (props obj)"
  then have "map_of (props obj) k = None"
    by (simp add: map_of_eq_None_iff)
  then show ?thesis
    by (simp add: get_prop_def)
qed

lemma compareObjects_sym_defined:
  assumes d1: "distinct (map fst (props obj1))" and d2: "distinct (map fst (props obj2))"
    and u1: "Undefined \<notin> snd ` set (props obj1)"
    and c: "compareObjects obj1 obj2"
  shows "compareObjects obj2 obj1"
proof -
  from c have len: "length (props obj1) = length (props obj2)"
    and eq: "\<forall>k \<in> fst ` set (props obj1). get_prop obj1 k = get_prop obj2 k"
    by (auto simp: compareObjects_def length_Object_keys list_all_iff set_Object_keys
        split: if_splits)
  have sub: "fst ` set (props obj1) \<subseteq> fst ` set (props obj2)"
  proof
    fix k assume k: "k \<in> fst ` set (props obj1)"
    then have "get_prop obj2 k \<noteq> Undefined"
      using eq get_prop_defined [OF k u1] by metis
    then show "k \<in> fst ` set (props obj2)"
      using get_prop_absent by blast
  qed
  have "card (fst ` set (props obj1)) = card (fst ` set (props obj2))"
    using d1 d2 len by (metis distinct_card length_map set_map)
  with sub have "fst ` set (props obj1) = fst ` set (props obj2)"
    by (simp add: card_subset_eq)
  with eq len show ?thesis
    by (simp add: compareObjects_def length_Object_keys list_all_iff set_Object_keys)
qed

text \<open>
  C4.  The claim states that \<^verbatim>\<open>compareObjects\<close> is reflexive, symmetric and false
  when the key counts differ.  Symmetry fails: \<^verbatim>\<open>obj2[key]\<close> is \<^verbatim>\<open>undefined\<close> for
  a key that \<^verbatim>\<open>obj2\<close> lacks, which \<^verbatim>\<open>===\<close> cannot tell from a property that holds
  \<^verbatim>\<open>undefined\<close>.  So \<^verbatim>\<open>compareObjects({a: undefined}, {b: 1})\<close> is true, although
  the objects differ, and \<^verbatim>\<open>compareObjects({b: 1}, {a: undefined})\<close> is false.
\<close>

theorem compareObjects_asymmetric:
  "compareObjects (literal [(''a'', Undefined)]) (literal [(''b'', Num 1)])
   \<and> \<not> compareObjects (literal [(''b'', Num 1)]) (literal [(''a'', Undefined)])"
  by (simp add: compareObjects_def Object_keys_def Object_entries_def literal_def get_prop_def
      is_array_index_def is_digit_def)

subsection \<open>makeImmutable\<close>

text \<open>
  C8, as amended.  \<^verbatim>\<open>makeImmutable(obj)\<close> returns \<^verbatim>\<open>obj\<close> itself with its properties as
  they were, and from then on no assignment to a property, old or new, and no deletion
  changes the object.  In sloppy-mode code the attempt is silently ignored.  In
  strict-mode code an assignment throws a \<^verbatim>\<open>TypeError\<close>, and so does the deletion of
  a property the object has.
\<close>

theorem makeImmutable_frozen:
  "makeImmutable st obj = (st1, r) \<Longrightarrow>
     r = obj \<and> props (st1 r) = props (st obj)
     \<and> assign Sloppy st1 r k v = Inr st1
     \<and> delete_stmt Sloppy st1 r k = Inr st1
     \<and> assign Strict st1 r k v = Inl TypeError
     \<and> delete_stmt Strict st1 r k
         = (if k \<in> fst ` set (props (st obj)) then Inl TypeError else Inr st1)"
  by (auto simp: makeImmutable_def assign_def delete_stmt_def obj_set_def obj_delete_def)

text \<open>
  The example of the documentation, in sloppy mode: \<^verbatim>\<open>immutableObj.a = 5\<close>,
  \<^verbatim>\<open>delete immutableObj.a\<close> and \<^verbatim>\<open>immutableObj.newProp = ...\<close> leave \<open>{a: 1, b: 2}\<close>.
\<close>

theorem makeImmutable_frozen_witness:
  "props (fst (makeImmutable (store_of (literal [(''a'', 1::int), (''b'', 2)])) 0) 0)
      = [(''a'', 1), (''b'', 2)]
   \<and> assign Sloppy (fst (makeImmutable (store_of (literal [(''a'', 1::int), (''b'', 2)])) 0)) 0 ''a'' 5
      = Inr (fst (makeImmutable (store_of (literal [(''a'', 1::int), (''b'', 2)])) 0))
   \<and> delete_stmt Sloppy (fst (makeImmutable (store_of (literal [(''a'', 1::int), (''b'', 2)])) 0)) 0 ''a''
      = Inr (fst (makeImmutable (store_of (literal [(''a'', 1::int), (''b'', 2)])) 0))
   \<and> assign Sloppy (fst (makeImmutable (store_of (literal [(''a'', 1::int), (''b'', 2)])) 0)) 0 ''newProp'' 7
      = Inr (fst (makeImmutable (store_of (literal [(''a'', 1::int), (''b'', 2)])) 0))"
  using makeImmutable_frozen
    [of "store_of (literal [(''a'', 1::int), (''b'', 2)])" 0
        "fst (makeImmutable (store_of (literal [(''a'', 1::int), (''b'', 2)])) 0)" 0]
  by (simp add: makeImmutable_def store_of_def literal_def)

text \<open>
  C8 as stated fails in strict-mode code: there \<^verbatim>\<open>immutableObj.a = 5\<close> is not ignored
  but raises a \<^verbatim>\<open>TypeError\<close>.
\<close>

theorem makeImmutable_strict_assignment_throws:
  "assign Strict (fst (makeImmutable (store_of (literal [(''a'', 1::int), (''b'', 2)])) 0)) 0 ''a'' 5
     = Inl TypeError"
  by (simp add: makeImmutable_def assign_def obj_set_def)

subsection \<open>mergeObjects\<close>

lemma foldl_concat_map:
  "foldl (\<lambda>a x. foldl f a (g x)) a xs = foldl f a (concat (map g xs))"
  by (induction xs arbitrary: a) simp_all

lemma total_Cons: "total ((k', v) # es) k = (if k' = k then v + total es k else total es k)"
  by (simp add: total_def)

lemma total_absent: "k \<notin> fst ` set es \<Longrightarrow> total es k = 0"
proof -
  assume "k \<notin> fst ` set es"
  then have "filter (\<lambda>p. fst p = k) es = []"
    by (auto simp: filter_empty_conv)
  then show ?thesis by (simp add: total_def)
qed

lemma map_of_fold_update:
  "map_of (foldl (\<lambda>ps e. AList.update (fst e) (num_at ps (fst e) + snd e) ps) m es) k
     = (if k \<in> fst ` set es then Some (num_at m k + total es k) else map_of m k)"
proof (induction es arbitrary: m)
  case Nil
  then show ?case by simp
next
  case (Cons e es)
  obtain k0 v0 where e: "e = (k0, v0)" by (cases e)
  let ?m1 = "AList.update k0 (num_at m k0 + v0) m"
  have m1: "map_of ?m1 = (map_of m)(k0 \<mapsto> num_at m k0 + v0)"
    by (rule AList.update_conv')
  have n1: "num_at ?m1 k = (if k = k0 then num_at m k0 + v0 else num_at m k)"
    by (simp add: num_at_def AList.update_conv')
  show ?case
  proof (cases "k = k0")
    case True
    with Cons.IH [of ?m1] n1 m1 show ?thesis
      by (simp add: e total_Cons total_absent)
  next
    case False
    with Cons.IH [of ?m1] n1 m1 show ?thesis
      by (auto simp: e total_Cons)
  qed
qed

lemma keys_fold_update:
  "map fst (foldl (\<lambda>ps e. AList.update (fst e) (h ps e) ps) m es)
     = foldl add_key (map fst m) (map fst es)"
  by (induction es arbitrary: m) (simp_all add: AList.update_keys add_key_def)

lemma fold_add_key:
  "foldl add_key acc ks = acc @ first_seen (filter (\<lambda>k. k \<notin> set acc) ks)"
proof (induction ks arbitrary: acc)
  case Nil
  then show ?case by simp
next
  case (Cons k ks)
  show ?case
  proof (cases "k \<in> set acc")
    case True
    with Cons.IH [of acc] show ?thesis by (simp add: add_key_def)
  next
    case False
    have "removeAll k (filter (\<lambda>k. k \<notin> set acc) ks) = filter (\<lambda>x. x \<notin> set (acc @ [k])) ks"
      by (induction ks) auto
    with False Cons.IH [of "acc @ [k]"] show ?thesis by (simp add: add_key_def)
  qed
qed

lemma mset_Object_entries: "mset (Object_entries obj) = mset (props obj)"
proof -
  have "mset (props obj) = filter_mset (\<lambda>p. is_array_index (fst p)) (mset (props obj))
          + filter_mset (\<lambda>p. \<not> is_array_index (fst p)) (mset (props obj))"
    by (rule multiset_partition)
  then show ?thesis
    by (simp add: Object_entries_def)
qed

lemma mset_all_entries:
  "mset (concat (map Object_entries objects)) = mset (concat (map props objects))"
  by (induction objects) (simp_all add: mset_Object_entries)

lemma total_mset: "mset es = mset es' \<Longrightarrow> total es k = total es' k"
proof -
  assume eq: "mset es = mset es'"
  have "total xs k = sum_mset (image_mset snd (filter_mset (\<lambda>p. fst p = k) (mset xs)))" for xs
    unfolding total_def by (simp flip: sum_mset_sum_list)
  with eq show ?thesis by simp
qed

lemma key_total_entries: "total (concat (map Object_entries objects)) k = key_total objects k"
  unfolding key_total_def total_def [symmetric]
  by (rule total_mset) (rule mset_all_entries)

lemma set_first_seen: "set (first_seen xs) = set xs"
  by (induction xs rule: first_seen.induct) auto

lemma distinct_first_seen: "distinct (first_seen xs)"
  by (induction xs rule: first_seen.induct) (simp_all add: set_first_seen)

lemma mset_Object_keys: "mset (Object_keys obj) = mset (map fst (props obj))"
  unfolding Object_keys_def mset_map mset_Object_entries ..

lemma Object_keys_other:
  "filter (\<lambda>k. \<not> is_array_index k) (Object_keys obj)
     = filter (\<lambda>k. \<not> is_array_index k) (map fst (props obj))"
proof -
  have "filter (\<lambda>k. \<not> is_array_index k)
          (map fst (sort_key (\<lambda>p. num_of (fst p)) (filter (\<lambda>p. is_array_index (fst p)) (props obj)))) = []"
    by (auto simp: filter_empty_conv)
  then show ?thesis
    by (simp add: Object_keys_def Object_entries_def filter_map comp_def)
qed

lemma Object_keys_index:
  "sorted (map num_of (filter is_array_index (Object_keys obj)))"
proof -
  let ?ix = "sort_key (\<lambda>p. num_of (fst p)) (filter (\<lambda>p. is_array_index (fst p)) (props obj))"
  have "filter (\<lambda>p. is_array_index (fst p)) ?ix = ?ix"
    by (rule filter_True) simp
  moreover have "sorted (map (\<lambda>p. num_of (fst p)) ?ix)"
    by (rule sorted_sort_key)
  ultimately show ?thesis
    by (simp add: Object_keys_def Object_entries_def filter_map comp_def)
qed

lemma Object_keys_split:
  "Object_keys obj = filter is_array_index (Object_keys obj)
                     @ filter (\<lambda>k. \<not> is_array_index k) (Object_keys obj)"
proof -
  let ?ix = "sort_key (\<lambda>p. num_of (fst p)) (filter (\<lambda>p. is_array_index (fst p)) (props obj))"
  let ?ot = "filter (\<lambda>p. \<not> is_array_index (fst p)) (props obj)"
  have 1: "filter (\<lambda>p. is_array_index (fst p)) ?ix = ?ix"
    by (rule filter_True) simp
  have 2: "filter (\<lambda>p. \<not> is_array_index (fst p)) ?ix = []"
    by (auto simp: filter_empty_conv)
  have 3: "filter (\<lambda>p. is_array_index (fst p)) ?ot = []"
    by (auto simp: filter_empty_conv)
  show ?thesis
    by (simp add: Object_keys_def Object_entries_def filter_map comp_def 1 2 3)
qed

text \<open>The merge with exact integer sums, which the proofs compare the code with.\<close>

lemma exact_fold:
  "foldl exact_step m es
     = foldl (\<lambda>ps e. AList.update (fst e) (num_at ps (fst e) + snd e) ps) m es"
  by (induction es arbitrary: m) (simp_all add: exact_step_def)

lemma exact_creation_order:
  "map fst (foldl exact_step [] (concat (map Object_entries objects)))
     = first_seen (concat (map Object_keys objects))"
proof -
  have "map fst (concat (map Object_entries objects)) = concat (map Object_keys objects)"
    by (induction objects) (simp_all add: Object_keys_def)
  then show ?thesis
    by (simp add: exact_fold keys_fold_update fold_add_key)
qed

lemma exact_lookup:
  "map_of (foldl exact_step [] (concat (map Object_entries objects))) k
     = (if k \<in> set (concat (map Object_keys objects)) then Some (key_total objects k) else None)"
proof -
  have keys: "fst ` set (concat (map Object_entries objects)) = set (concat (map Object_keys objects))"
    by (auto simp: Object_keys_def)
  show ?thesis
    unfolding exact_fold map_of_fold_update keys key_total_entries
    by (simp add: num_at_def)
qed

text \<open>Where no addition rounds, the code computes the exact merge.\<close>

lemma excess_small: "n < 2 ^ 53 \<Longrightarrow> excess n = 0"
  by (subst excess.simps) simp

lemma round53_multiple:
  assumes "nat \<bar>x\<bar> mod 2 ^ excess (nat \<bar>x\<bar>) = 0"
  shows "round53 x = x"
proof -
  define n where "n = nat \<bar>x\<bar>"
  define u :: nat where "u = 2 ^ excess n"
  have r: "n mod u = 0"
    using assms unfolding n_def u_def .
  have u: "0 < u"
    by (simp add: u_def)
  have "n div u * u + n mod u = n"
    by (rule div_mult_mod_eq)
  with r have q: "n div u * u = n"
    by simp
  have "round53 x = sgn x * int (n div u * u)"
    unfolding round53_def Let_def n_def [symmetric] u_def [symmetric] r using u by simp
  also have "\<dots> = sgn x * \<bar>x\<bar>"
    unfolding q by (simp add: n_def)
  also have "\<dots> = x"
    by (rule mult_sgn_abs)
  finally show ?thesis .
qed

lemma round53_exact: "\<bar>x\<bar> \<le> 2 ^ 53 \<Longrightarrow> round53 x = x"
proof (rule round53_multiple)
  assume b: "\<bar>x\<bar> \<le> 2 ^ 53"
  define n where "n = nat \<bar>x\<bar>"
  from b have le: "n \<le> 2 ^ 53"
    unfolding n_def by (simp add: nat_le_iff)
  show "nat \<bar>x\<bar> mod 2 ^ excess (nat \<bar>x\<bar>) = 0"
    unfolding n_def [symmetric]
  proof (cases "n < 2 ^ 53")
    case True
    then show "n mod 2 ^ excess n = 0"
      by (simp add: excess_small)
  next
    case False
    with le have n: "n = 2 ^ 53" by simp
    have half: "(2 :: nat) ^ 53 div 2 = 2 ^ 52" by simp
    have "excess (2 ^ 53) = Suc (excess (2 ^ 52))"
      by (subst excess.simps) (simp only: half less_irrefl if_False)
    also have "excess (2 ^ 52) = 0"
      by (rule excess_small) simp
    finally show "n mod 2 ^ excess n = 0"
      unfolding n by simp
  qed
qed

lemma to_double_exact: "\<bar>x\<bar> \<le> 2 ^ 53 \<Longrightarrow> to_double x = Number x"
proof -
  assume b: "\<bar>x\<bar> \<le> 2 ^ 53"
  have "(2 :: int) ^ 53 < 2 ^ 1024"
    by (rule power_strict_increasing) simp_all
  with b have "x < 2 ^ 1024" and "- (2 ^ 1024) < x"
    by linarith+
  then show ?thesis
    by (simp add: to_double_def round53_exact [OF b] Let_def)
qed

lemma map_of_numbers: "map_of (numbers m) k = map_option Number (map_of m k)"
  by (induction m) (simp_all add: numbers_def)

lemma keys_numbers: "map fst (numbers m) = map fst m"
  by (simp add: numbers_def comp_def)

lemma update_numbers: "AList.update k (Number v) (numbers m) = numbers (AList.update k v m)"
  by (induction m) (simp_all add: numbers_def)

lemma merge_entry_exact:
  assumes nf: "\<not> frozen M" and ps: "props M = numbers m"
    and key: "k \<noteq> ''__proto__''" "k \<notin> set Object_prototype_methods"
    and bound: "\<bar>num_at m k + v\<bar> \<le> 2 ^ 53"
  shows "\<not> frozen (merge_entry M (k, v))"
    and "props (merge_entry M (k, v)) = numbers (exact_step m (k, v))"
proof -
  have both: "\<not> frozen (merge_entry M (k, v))
      \<and> props (merge_entry M (k, v)) = numbers (exact_step m (k, v))"
  proof (cases "map_of m k")
    case None
    then have "lookup M k = Undef"
      using key by (simp add: lookup_def ps map_of_numbers)
    then show ?thesis
      using nf key None
      by (simp add: merge_entry_def put_def obj_set_def ps update_numbers exact_step_def num_at_def)
  next
    case (Some a)
    then have l: "lookup M k = Number a"
      by (simp add: lookup_def ps map_of_numbers)
    from Some bound have d: "to_double (a + v) = Number (a + v)"
      by (intro to_double_exact) (simp add: num_at_def)
    show ?thesis
      using nf key Some l d
      by (cases "a = 0")
        (simp_all add: merge_entry_def put_def obj_set_def ps update_numbers exact_step_def
          num_at_def)
  qed
  then show "\<not> frozen (merge_entry M (k, v))"
    and "props (merge_entry M (k, v)) = numbers (exact_step m (k, v))"
    by simp_all
qed

lemma num_at_exact_step:
  "num_at (exact_step m (k, v)) k' = (if k' = k then num_at m k + v else num_at m k')"
  by (simp add: exact_step_def num_at_def AList.update_conv')

lemma fold_merge_exact:
  assumes "\<not> frozen M" and "props M = numbers m"
    and "list_all (\<lambda>p. fst p \<noteq> ''__proto__'' \<and> fst p \<notin> set Object_prototype_methods) es"
    and "\<forall>k. \<bar>num_at m k\<bar> \<le> s" and "s + abs_total es \<le> 2 ^ 53"
  shows "\<not> frozen (foldl merge_entry M es)
         \<and> props (foldl merge_entry M es) = numbers (foldl exact_step m es)"
  using assms
proof (induction es arbitrary: M m s)
  case Nil
  then show ?case by simp
next
  case (Cons e es)
  obtain k v where e: "e = (k, v)" by (cases e)
  from Cons.prems(3) have key: "k \<noteq> ''__proto__''" "k \<notin> set Object_prototype_methods"
    and rest: "list_all (\<lambda>p. fst p \<noteq> ''__proto__'' \<and> fst p \<notin> set Object_prototype_methods) es"
    by (simp_all add: e)
  from Cons.prems(5) have split: "(s + \<bar>v\<bar>) + abs_total es \<le> 2 ^ 53"
    by (simp add: e abs_total_def)
  have nonneg: "0 \<le> abs_total es"
    unfolding abs_total_def by (rule sum_list_nonneg) auto
  have "\<bar>num_at m k\<bar> \<le> s"
    using Cons.prems(4) by blast
  then have "\<bar>num_at m k + v\<bar> \<le> s + \<bar>v\<bar>"
    using abs_triangle_ineq [of "num_at m k" v] by linarith
  with split nonneg have bound: "\<bar>num_at m k + v\<bar> \<le> 2 ^ 53"
    by linarith
  have inv: "\<forall>k'. \<bar>num_at (exact_step m (k, v)) k'\<bar> \<le> s + \<bar>v\<bar>"
  proof
    fix k'
    show "\<bar>num_at (exact_step m (k, v)) k'\<bar> \<le> s + \<bar>v\<bar>"
    proof (cases "k' = k")
      case True
      then show ?thesis
        using \<open>\<bar>num_at m k + v\<bar> \<le> s + \<bar>v\<bar>\<close> by (simp add: num_at_exact_step)
    next
      case False
      have "\<bar>num_at m k'\<bar> \<le> s" using Cons.prems(4) by blast
      then show ?thesis
        using False by (simp add: num_at_exact_step)
    qed
  qed
  note step = merge_entry_exact [OF Cons.prems(1) Cons.prems(2) key bound]
  from Cons.IH [OF step(1) step(2) rest inv split] show ?case
    by (simp add: e)
qed

lemma abs_total_mset: "mset es = mset es' \<Longrightarrow> abs_total es = abs_total es'"
proof -
  assume eq: "mset es = mset es'"
  have "abs_total xs = sum_mset (image_mset (\<lambda>p. \<bar>snd p\<bar>) (mset xs))" for xs
    unfolding abs_total_def by (simp flip: sum_mset_sum_list)
  with eq show ?thesis by simp
qed

lemma mergeObjects_props:
  assumes "plain_keys objects" and "exact_sums objects"
  shows "props (mergeObjects objects)
           = numbers (foldl exact_step [] (concat (map Object_entries objects)))"
proof -
  let ?es = "concat (map Object_entries objects)"
  have "set ?es = set (concat (map props objects))"
    using mset_all_entries [of objects] by (rule mset_eq_setD)
  with assms(1)
  have keys: "list_all (\<lambda>p. fst p \<noteq> ''__proto__'' \<and> fst p \<notin> set Object_prototype_methods) ?es"
    by (simp add: plain_keys_def list_all_iff)
  have "abs_total ?es = abs_total (concat (map props objects))"
    by (rule abs_total_mset) (rule mset_all_entries)
  with assms(2) have sums: "0 + abs_total ?es \<le> 2 ^ 53"
    by (simp add: exact_sums_def abs_total_def)
  have start: "\<not> frozen (literal [] :: mval jsobj)" "props (literal [] :: mval jsobj) = numbers []"
    by (simp_all add: literal_def numbers_def)
  have zero: "\<forall>k. \<bar>num_at [] k\<bar> \<le> 0"
    by (simp add: num_at_def)
  from fold_merge_exact [OF start keys zero sums] show ?thesis
    by (simp add: mergeObjects_def foldl_concat_map)
qed

lemma hypotheses_permuted:
  assumes "mset objects' = mset objects"
  shows "plain_keys objects' = plain_keys objects" and "exact_sums objects' = exact_sums objects"
proof -
  have flat: "mset (concat (map props objects')) = mset (concat (map props objects))"
    using assms by (metis mset_concat mset_map sum_mset_sum_list)
  then have "set (concat (map props objects')) = set (concat (map props objects))"
    by (rule mset_eq_setD)
  then show "plain_keys objects' = plain_keys objects"
    by (simp add: plain_keys_def list_all_iff)
  from flat have "abs_total (concat (map props objects')) = abs_total (concat (map props objects))"
    by (rule abs_total_mset)
  then show "exact_sums objects' = exact_sums objects"
    by (simp add: exact_sums_def abs_total_def)
qed

lemma totals_permuted:
  assumes "mset objects' = mset objects"
  shows "key_total objects' k = key_total objects k"
    and "set (concat (map Object_keys objects')) = set (concat (map Object_keys objects))"
proof -
  have flat: "mset (concat (map props objects')) = mset (concat (map props objects))"
    using assms by (metis mset_concat mset_map sum_mset_sum_list)
  have flatk: "mset (concat (map Object_keys objects')) = mset (concat (map Object_keys objects))"
    using assms by (metis mset_concat mset_map sum_mset_sum_list)
  show "key_total objects' k = key_total objects k"
    unfolding key_total_def total_def [symmetric] by (rule total_mset) (rule flat)
  show "set (concat (map Object_keys objects')) = set (concat (map Object_keys objects))"
    using flatk by (rule mset_eq_setD)
qed

lemma mergeObjects_lookup:
  assumes "plain_keys objects" and "exact_sums objects"
  shows "map_of (props (mergeObjects objects)) k
     = (if k \<in> set (concat (map Object_keys objects))
        then Some (Number (key_total objects k)) else None)"
  by (simp add: mergeObjects_props [OF assms] map_of_numbers exact_lookup)

lemma mergeObjects_creation_order:
  assumes "plain_keys objects" and "exact_sums objects"
  shows "map fst (props (mergeObjects objects)) = first_seen (concat (map Object_keys objects))"
  by (simp add: mergeObjects_props [OF assms] keys_numbers exact_creation_order)

text \<open>\<open>2^53 + 1\<close> is not a double and rounds to \<open>2^53\<close>; \<open>2^53 + 2\<close> is a double.\<close>

lemma rounds_down: "to_double 9007199254740993 = Number 9007199254740992"
proof -
  have "excess 9007199254740993 = Suc 0"
    by (simp add: excess.simps [of 9007199254740993] excess.simps [of 4503599627370496])
  then show ?thesis
    by (simp add: to_double_def round53_def Let_def)
qed

lemma no_rounding: "to_double 9007199254740994 = Number 9007199254740994"
proof -
  have "excess 9007199254740994 = Suc 0"
    by (simp add: excess.simps [of 9007199254740994] excess.simps [of 4503599627370497])
  then show ?thesis
    by (simp add: to_double_def round53_def Let_def)
qed

lemmas merge_defs =
  mergeObjects_def merge_entry_def lookup_def put_def obj_set_def literal_def
  Object_keys_def Object_entries_def is_array_index_def is_digit_def num_of_def
  Object_prototype_methods_def

text \<open>
  C5, as amended.  For every list of objects whose values are integers with absolute
  values that together do not exceed \<open>2^53\<close>, and whose keys are not names of
  members of \<^verbatim>\<open>Object.prototype\<close>, the object that \<^verbatim>\<open>mergeObjects\<close> returns has
  exactly one property for each key that occurs in an input, and its value is the sum
  of the values the key has across the inputs.  Its keys that are array indices are
  enumerated first, in ascending numeric order; the other keys follow in the order in
  which they were first seen.  The set of keys and the sums are the same for every
  permutation of the input list.  \<^verbatim>\<open>mergeObjects([{a:1,b:2},{b:3,c:5}])\<close> is
  \<open>{a:1,b:5,c:5}\<close> and \<^verbatim>\<open>mergeObjects([])\<close> is \<open>{}\<close>.
\<close>

theorem mergeObjects_sums:
  "plain_keys objects \<Longrightarrow> exact_sums objects \<Longrightarrow>
   map_of (props (mergeObjects objects)) k
      = (if k \<in> set (concat (map Object_keys objects))
         then Some (Number (key_total objects k)) else None)
   \<and> distinct (Object_keys (mergeObjects objects))
   \<and> Object_keys (mergeObjects objects)
      = filter is_array_index (Object_keys (mergeObjects objects))
        @ filter (\<lambda>k. \<not> is_array_index k) (first_seen (concat (map Object_keys objects)))
   \<and> sorted (map num_of (filter is_array_index (Object_keys (mergeObjects objects))))
   \<and> (mset objects' = mset objects \<longrightarrow>
        set (Object_keys (mergeObjects objects')) = set (Object_keys (mergeObjects objects))
        \<and> map_of (props (mergeObjects objects')) = map_of (props (mergeObjects objects)))
   \<and> Object_entries (mergeObjects [literal [(''a'', 1), (''b'', 2)], literal [(''b'', 3), (''c'', 5)]])
      = [(''a'', Number 1), (''b'', Number 5), (''c'', Number 5)]
   \<and> mergeObjects [] = literal []"
proof (intro conjI impI)
  assume pk: "plain_keys objects" and ex: "exact_sums objects"
  show "map_of (props (mergeObjects objects)) k
      = (if k \<in> set (concat (map Object_keys objects))
         then Some (Number (key_total objects k)) else None)"
    using pk ex by (rule mergeObjects_lookup)
  have order: "map fst (props (mergeObjects objects)) = first_seen (concat (map Object_keys objects))"
    using pk ex by (rule mergeObjects_creation_order)
  then have "distinct (map fst (props (mergeObjects objects)))"
    by (simp add: distinct_first_seen)
  then show "distinct (Object_keys (mergeObjects objects))"
    using mset_eq_imp_distinct_iff [OF mset_Object_keys] by blast
  have "filter (\<lambda>k. \<not> is_array_index k) (Object_keys (mergeObjects objects))
          = filter (\<lambda>k. \<not> is_array_index k) (first_seen (concat (map Object_keys objects)))"
    by (simp only: Object_keys_other order)
  with Object_keys_split [of "mergeObjects objects"]
  show "Object_keys (mergeObjects objects)
      = filter is_array_index (Object_keys (mergeObjects objects))
        @ filter (\<lambda>k. \<not> is_array_index k) (first_seen (concat (map Object_keys objects)))"
    by simp
  show "sorted (map num_of (filter is_array_index (Object_keys (mergeObjects objects))))"
    by (rule Object_keys_index)
  show "Object_entries (mergeObjects [literal [(''a'', 1), (''b'', 2)], literal [(''b'', 3), (''c'', 5)]])
      = [(''a'', Number 1), (''b'', Number 5), (''c'', Number 5)]"
    by (simp add: merge_defs to_double_exact)
  show "mergeObjects [] = literal []"
    by (simp add: mergeObjects_def)
  assume p: "mset objects' = mset objects"
  from pk ex have pk': "plain_keys objects'" and ex': "exact_sums objects'"
    by (simp_all add: hypotheses_permuted [OF p])
  have keys: "set (Object_keys obj) = set (map fst (props obj))" for obj :: "mval jsobj"
    using mset_Object_keys by (rule mset_eq_setD)
  show "set (Object_keys (mergeObjects objects')) = set (Object_keys (mergeObjects objects))"
    by (simp only: keys mergeObjects_creation_order [OF pk ex]
        mergeObjects_creation_order [OF pk' ex'] set_first_seen totals_permuted(2) [OF p])
  show "map_of (props (mergeObjects objects')) = map_of (props (mergeObjects objects))"
    by (rule ext)
      (simp only: mergeObjects_lookup [OF pk ex] mergeObjects_lookup [OF pk' ex']
        totals_permuted [OF p])
qed

text \<open>The two objects of the example in the other order: the same sums, other key order.\<close>

theorem mergeObjects_sums_witness:
  "plain_keys [literal [(''a'', 1), (''b'', 2)], literal [(''b'', 3), (''c'', 5)]]
   \<and> exact_sums [literal [(''a'', 1), (''b'', 2)], literal [(''b'', 3), (''c'', 5)]]
   \<and> mset [literal [(''b'', 3), (''c'', 5)], literal [(''a'', 1), (''b'', 2)]]
     = mset [literal [(''a'', 1), (''b'', 2)], literal [(''b'', 3), (''c'', 5 :: int)]]
   \<and> map_of (props (mergeObjects [literal [(''a'', 1), (''b'', 2)], literal [(''b'', 3), (''c'', 5)]])) ''b''
     = Some (Number 5)
   \<and> map_of (props (mergeObjects [literal [(''b'', 3), (''c'', 5)], literal [(''a'', 1), (''b'', 2)]]))
     = map_of (props (mergeObjects [literal [(''a'', 1), (''b'', 2)], literal [(''b'', 3), (''c'', 5)]]))
   \<and> Object_keys (mergeObjects [literal [(''b'', 3), (''c'', 5)], literal [(''a'', 1), (''b'', 2)]])
     = [''b'', ''c'', ''a'']"
proof -
  let ?A = "literal [(''a'', 1), (''b'', 2 :: int)]" and ?B = "literal [(''b'', 3), (''c'', 5 :: int)]"
  have pk: "plain_keys [?A, ?B]"
    by (simp add: plain_keys_def literal_def Object_prototype_methods_def)
  have ex: "exact_sums [?A, ?B]"
    by (simp add: exact_sums_def literal_def)
  have m: "mset [?B, ?A] = mset [?A, ?B]"
    by (simp add: add_mset_commute)
  have t: "key_total [?A, ?B] ''b'' = 5"
    by (simp add: key_total_def literal_def)
  have k: "Object_keys (mergeObjects [?B, ?A]) = [''b'', ''c'', ''a'']"
    by (simp add: merge_defs to_double_exact)
  have kk: "''b'' \<in> set (concat (map Object_keys [?A, ?B]))"
    by (simp add: merge_defs)
  from mergeObjects_sums [OF pk ex, of "''b''" "[?B, ?A]"] m t kk
  have "map_of (props (mergeObjects [?A, ?B])) ''b'' = Some (Number 5)"
    and "map_of (props (mergeObjects [?B, ?A])) = map_of (props (mergeObjects [?A, ?B]))"
    by simp_all
  with pk ex m k show ?thesis by simp
qed

text \<open>
  C5 as stated fails in three ways.  Keys that are array indices come first:
  \<^verbatim>\<open>mergeObjects([{b: 1}, {1: 2}])\<close> enumerates \<open>1\<close> before \<open>b\<close>.  Additions
  round: merging \<open>{a: 2^53}\<close>, \<open>{a: 1}\<close>, \<open>{a: 1}\<close> gives \<open>2^53\<close> in this order and
  \<open>2^53 + 2\<close>, the sum, with the large value last.  An inherited member is taken for
  a value already merged: \<^verbatim>\<open>mergeObjects([{toString: 1}])\<close> holds a string.
\<close>

theorem mergeObjects_three_failures:
  "Object_keys (mergeObjects [literal [(''b'', 1)], literal [(''1'', 2)]]) = [''1'', ''b'']
   \<and> first_seen (concat (map Object_keys [literal [(''b'', 1::int)], literal [(''1'', 2)]]))
       = [''b'', ''1'']
   \<and> map_of (props (mergeObjects
         [literal [(''a'', 2 ^ 53)], literal [(''a'', 1)], literal [(''a'', 1)]])) ''a''
       = Some (Number (2 ^ 53))
   \<and> map_of (props (mergeObjects
         [literal [(''a'', 1)], literal [(''a'', 1)], literal [(''a'', 2 ^ 53)]])) ''a''
       = Some (Number (2 ^ 53 + 2))
   \<and> key_total [literal [(''a'', 2 ^ 53)], literal [(''a'', 1)], literal [(''a'', 1)]] ''a''
       = 2 ^ 53 + 2
   \<and> map_of (props (mergeObjects [literal [(''toString'', 1)]])) ''toString'' = Some Text
   \<and> key_total [literal [(''toString'', 1)]] ''toString'' = 1"
  by (simp add: merge_defs key_total_def rounds_down no_rounding to_double_exact)

subsection \<open>group\<close>

text \<open>
  \<^const>\<open>first_seen\<close> is the result of scanning the list from the left and appending
  each element that has not occurred before.
\<close>

lemma first_seen_scan: "first_seen ks = foldl add_key [] ks"
  by (simp add: fold_add_key)

lemma collect_values:
  "foldl (\<lambda>acc item. if P item then acc @ [f item] else acc) acc array
     = acc @ map f (filter P array)"
  by (induction array arbitrary: acc) simp_all

lemma update_graph:
  "AList.update k (G k) (map (\<lambda>k. (k, G k)) acc) = map (\<lambda>k. (k, G k)) (add_key acc k)"
  by (induction acc) (auto simp: add_key_def)

lemma new_Map_graph:
  "foldl (\<lambda>m pair. Map_set m (fst pair) (snd pair)) (map (\<lambda>k. (k, G k)) acc)
       (map (\<lambda>x. (f x, G (f x))) xs)
     = map (\<lambda>k. (k, G k)) (foldl add_key acc (map f xs))"
  by (induction xs arbitrary: acc) (simp_all add: Map_set_def update_graph)

lemma group_eq:
  "group array keySelector valueSelector
     = map (\<lambda>k. (k, map valueSelector (filter (\<lambda>item. keySelector item = k) array)))
         (first_seen (map keySelector array))"
proof -
  let ?G = "\<lambda>k. map valueSelector (filter (\<lambda>item. keySelector item = k) array)"
  have vals: "foldl (\<lambda>acc item. if keySelector element = keySelector item
                        then acc @ [valueSelector item] else acc) [] array
                  = ?G (keySelector element)" for element
    unfolding collect_values by (simp add: eq_commute)
  have "group array keySelector valueSelector
          = new_Map (map (\<lambda>element. (keySelector element, ?G (keySelector element))) array)"
    unfolding group_def Let_def vals ..
  also have "\<dots> = map (\<lambda>k. (k, ?G k)) (foldl add_key [] (map keySelector array))"
    unfolding new_Map_def using new_Map_graph [of ?G "[]" keySelector array] by simp
  finally show ?thesis
    by (simp add: first_seen_scan)
qed

text \<open>
  C7.  For every array and every key and value selector, the map that \<^verbatim>\<open>group\<close>
  returns has exactly one entry for each distinct key, the keys stand in the order of
  their first appearance in the array, and the value of a key is the list of the
  selected values of all elements with that key, in their order in the array.
\<close>

theorem group_first_seen:
  "group array keySelector valueSelector
     = map (\<lambda>k. (k, map valueSelector (filter (\<lambda>item. keySelector item = k) array)))
         (first_seen (map keySelector array))
   \<and> distinct (map fst (group array keySelector valueSelector))
   \<and> set (map fst (group array keySelector valueSelector)) = keySelector ` set array"
proof -
  have "map fst (group array keySelector valueSelector) = first_seen (map keySelector array)"
    unfolding group_eq by (simp add: comp_def)
  then show ?thesis
    using group_eq [of array keySelector valueSelector]
    by (simp add: distinct_first_seen set_first_seen)
qed

text \<open>The example of the documentation.\<close>

theorem group_first_seen_witness:
  "group [\<lparr>country = ''Belarus'', city = ''Brest''\<rparr>, \<lparr>country = ''Russia'', city = ''Omsk''\<rparr>,
          \<lparr>country = ''Russia'', city = ''Samara''\<rparr>, \<lparr>country = ''Belarus'', city = ''Grodno''\<rparr>,
          \<lparr>country = ''Belarus'', city = ''Minsk''\<rparr>, \<lparr>country = ''Poland'', city = ''Lodz''\<rparr>]
      country city
     = [(''Belarus'', [''Brest'', ''Grodno'', ''Minsk'']),
        (''Russia'', [''Omsk'', ''Samara'']),
        (''Poland'', [''Lodz''])]"
  using group_first_seen
    [of "[\<lparr>country = ''Belarus'', city = ''Brest''\<rparr>, \<lparr>country = ''Russia'', city = ''Omsk''\<rparr>,
          \<lparr>country = ''Russia'', city = ''Samara''\<rparr>, \<lparr>country = ''Belarus'', city = ''Grodno''\<rparr>,
          \<lparr>country = ''Belarus'', city = ''Minsk''\<rparr>, \<lparr>country = ''Poland'', city = ''Lodz''\<rparr>]"
        country city]
  by simp

subsection \<open>sortCitiesArray\<close>

lemma mset_sort_insert: "mset (sort_insert cmp x xs) = add_mset x (mset xs)"
  by (induction xs) simp_all

lemma mset_Array_sort_aux:
  "mset (foldl (\<lambda>sorted x. sort_insert cmp x sorted) acc xs) = mset acc + mset xs"
  by (induction xs arbitrary: acc) (simp_all add: mset_sort_insert)

lemma mset_Array_sort: "mset (Array_sort cmp xs) = mset xs"
  by (simp add: Array_sort_def mset_Array_sort_aux)

lemma code_unit_eq: "((of_char x :: nat) = of_char y) = (x = y)"
  by (metis char_of_char)

lemma first_char_hd: "s \<noteq> [] \<Longrightarrow> first_char s = Some (hd s)"
  by (cases s) (simp_all add: first_char_def)

lemma compare_cities_positive:
  assumes "named a" and "named b"
  shows "(compare_cities a b > 0) = (\<not> first_chars_le a b)"
proof -
  from assms have fc:
    "first_char (country a) = Some (hd (country a))" "first_char (country b) = Some (hd (country b))"
    "first_char (city a) = Some (hd (city a))" "first_char (city b) = Some (hd (city b))"
    by (simp_all add: named_def first_char_hd)
  show ?thesis
  proof (cases "hd (country a) = hd (country b)")
    case True
    then show ?thesis
      by (simp add: compare_cities_def first_chars_le_def fc not_le)
  next
    case False
    then have "(of_char (hd (country a)) :: nat) \<noteq> of_char (hd (country b))"
      by (simp add: code_unit_eq)
    with False show ?thesis
      by (simp add: compare_cities_def first_chars_le_def fc not_less)
  qed
qed

lemma first_chars_le_total: "first_chars_le a b \<or> first_chars_le b a"
proof (cases "hd (country a) = hd (country b)")
  case True
  then show ?thesis
    by (auto simp: first_chars_le_def)
next
  case False
  then have "(of_char (hd (country a)) :: nat) \<noteq> of_char (hd (country b))"
    by (simp add: code_unit_eq)
  then show ?thesis
    unfolding first_chars_le_def by linarith
qed

lemma first_chars_le_trans:
  "first_chars_le a b \<Longrightarrow> first_chars_le b c \<Longrightarrow> first_chars_le a c"
  by (auto simp: first_chars_le_def)

lemma sorted_sort_insert:
  "named x \<Longrightarrow> list_all named xs \<Longrightarrow> sorted_wrt first_chars_le xs \<Longrightarrow>
   sorted_wrt first_chars_le (sort_insert compare_cities x xs)"
proof (induction xs)
  case Nil
  then show ?case by simp
next
  case (Cons y ys)
  show ?case
  proof (cases "compare_cities x y > 0")
    case True
    with Cons.prems have "first_chars_le y x"
      using compare_cities_positive [of x y] first_chars_le_total [of x y] by simp
    moreover have "set (sort_insert compare_cities x ys) = insert x (set ys)"
      using mset_sort_insert [of compare_cities x ys] by (metis set_mset_add_mset_insert set_mset_mset)
    ultimately show ?thesis
      using True Cons by simp
  next
    case False
    with Cons.prems have xy: "first_chars_le x y"
      using compare_cities_positive [of x y] by simp
    have "\<forall>z \<in> set ys. first_chars_le x z"
      using Cons.prems(3) xy first_chars_le_trans by auto
    with False xy Cons.prems(3) show ?thesis by simp
  qed
qed

lemma sorted_Array_sort_aux:
  "list_all named acc \<Longrightarrow> sorted_wrt first_chars_le acc \<Longrightarrow> list_all named xs \<Longrightarrow>
   sorted_wrt first_chars_le (foldl (\<lambda>sorted x. sort_insert compare_cities x sorted) acc xs)"
proof (induction xs arbitrary: acc)
  case Nil
  then show ?case by simp
next
  case (Cons x xs)
  have "list_all named (sort_insert compare_cities x acc)"
    using Cons.prems mset_sort_insert [of compare_cities x acc]
    by (metis list.pred_inject(2) list_all_iff mset_eq_setD set_mset_add_mset_insert set_mset_mset list.set(2))
  moreover have "sorted_wrt first_chars_le (sort_insert compare_cities x acc)"
    using Cons.prems by (intro sorted_sort_insert) simp_all
  ultimately show ?case
    using Cons.IH [of "sort_insert compare_cities x acc"] Cons.prems by simp
qed

lemma sorted_Array_sort:
  "list_all named xs \<Longrightarrow> sorted_wrt first_chars_le (Array_sort compare_cities xs)"
  unfolding Array_sort_def by (rule sorted_Array_sort_aux) simp_all

text \<open>
  C9, as amended.  For every array of records whose country and city are not empty,
  \<^verbatim>\<open>sortCitiesArray\<close> returns the reference it was given, and the array behind it
  holds the same records as before, sorted in ascending order by the first character
  of the country and, where those are equal, by the first character of the city.
\<close>

theorem sortCitiesArray_in_place:
  "list_all named (st arr) \<Longrightarrow>
     snd (sortCitiesArray st arr) = arr
     \<and> mset (fst (sortCitiesArray st arr) arr) = mset (st arr)
     \<and> sorted_wrt first_chars_le (fst (sortCitiesArray st arr) arr)"
  by (simp add: sortCitiesArray_def mset_Array_sort sorted_Array_sort)

text \<open>The example of the documentation.\<close>

theorem sortCitiesArray_in_place_witness:
  "list_all named
     [\<lparr>country = ''Russia'', city = ''Moscow''\<rparr>, \<lparr>country = ''Belarus'', city = ''Minsk''\<rparr>,
      \<lparr>country = ''Poland'', city = ''Warsaw''\<rparr>, \<lparr>country = ''Russia'', city = ''Saint Petersburg''\<rparr>,
      \<lparr>country = ''Poland'', city = ''Krakow''\<rparr>, \<lparr>country = ''Belarus'', city = ''Brest''\<rparr>]
   \<and> fst (sortCitiesArray (arrays_of
     [\<lparr>country = ''Russia'', city = ''Moscow''\<rparr>, \<lparr>country = ''Belarus'', city = ''Minsk''\<rparr>,
      \<lparr>country = ''Poland'', city = ''Warsaw''\<rparr>, \<lparr>country = ''Russia'', city = ''Saint Petersburg''\<rparr>,
      \<lparr>country = ''Poland'', city = ''Krakow''\<rparr>, \<lparr>country = ''Belarus'', city = ''Brest''\<rparr>]) 0) 0
     = [\<lparr>country = ''Belarus'', city = ''Brest''\<rparr>, \<lparr>country = ''Belarus'', city = ''Minsk''\<rparr>,
        \<lparr>country = ''Poland'', city = ''Krakow''\<rparr>, \<lparr>country = ''Poland'', city = ''Warsaw''\<rparr>,
        \<lparr>country = ''Russia'', city = ''Moscow''\<rparr>, \<lparr>country = ''Russia'', city = ''Saint Petersburg''\<rparr>]
   \<and> sorted_wrt first_chars_le (fst (sortCitiesArray (arrays_of
     [\<lparr>country = ''Russia'', city = ''Moscow''\<rparr>, \<lparr>country = ''Belarus'', city = ''Minsk''\<rparr>,
      \<lparr>country = ''Poland'', city = ''Warsaw''\<rparr>, \<lparr>country = ''Russia'', city = ''Saint Petersburg''\<rparr>,
      \<lparr>country = ''Poland'', city = ''Krakow''\<rparr>, \<lparr>country = ''Belarus'', city = ''Brest''\<rparr>]) 0) 0)"
proof -
  let ?xs = "[\<lparr>country = ''Russia'', city = ''Moscow''\<rparr>, \<lparr>country = ''Belarus'', city = ''Minsk''\<rparr>,
      \<lparr>country = ''Poland'', city = ''Warsaw''\<rparr>, \<lparr>country = ''Russia'', city = ''Saint Petersburg''\<rparr>,
      \<lparr>country = ''Poland'', city = ''Krakow''\<rparr>, \<lparr>country = ''Belarus'', city = ''Brest''\<rparr>]"
  have n: "list_all named (arrays_of ?xs 0)"
    by (simp add: named_def arrays_of_def)
  have v: "fst (sortCitiesArray (arrays_of ?xs) 0) 0
     = [\<lparr>country = ''Belarus'', city = ''Brest''\<rparr>, \<lparr>country = ''Belarus'', city = ''Minsk''\<rparr>,
        \<lparr>country = ''Poland'', city = ''Krakow''\<rparr>, \<lparr>country = ''Poland'', city = ''Warsaw''\<rparr>,
        \<lparr>country = ''Russia'', city = ''Moscow''\<rparr>, \<lparr>country = ''Russia'', city = ''Saint Petersburg''\<rparr>]"
    by (simp add: sortCitiesArray_def Array_sort_def arrays_of_def compare_cities_def first_char_def)
  from n v sortCitiesArray_in_place [of "arrays_of ?xs" 0] show ?thesis
    by (simp add: arrays_of_def)
qed

text \<open>
  C9 as stated fails for a record with an empty country.  An empty string has no first
  character: its \<^verbatim>\<open>[0]\<close> is \<^verbatim>\<open>undefined\<close>, and the comparator answers \<open>-1\<close> in
  both directions.  So \<open>C\<close>, the empty country, \<open>A\<close>, \<open>D\<close> come out as \<open>A\<close>, \<open>D\<close>,
  the empty country, \<open>C\<close>, with \<open>D\<close> before \<open>C\<close>; and the same two records come out
  in either order.
\<close>

theorem sortCitiesArray_empty_country:
  "fst (sortCitiesArray (arrays_of
      [\<lparr>country = ''C'', city = ''x''\<rparr>, \<lparr>country = [], city = ''x''\<rparr>,
       \<lparr>country = ''A'', city = ''x''\<rparr>, \<lparr>country = ''D'', city = ''x''\<rparr>]) 0) 0
     = [\<lparr>country = ''A'', city = ''x''\<rparr>, \<lparr>country = ''D'', city = ''x''\<rparr>,
        \<lparr>country = [], city = ''x''\<rparr>, \<lparr>country = ''C'', city = ''x''\<rparr>]
   \<and> \<not> first_chars_le \<lparr>country = ''D'', city = ''x''\<rparr> \<lparr>country = ''C'', city = ''x''\<rparr>
   \<and> fst (sortCitiesArray (arrays_of
      [\<lparr>country = ''A'', city = ''x''\<rparr>, \<lparr>country = [], city = ''x''\<rparr>]) 0) 0
     = [\<lparr>country = [], city = ''x''\<rparr>, \<lparr>country = ''A'', city = ''x''\<rparr>]
   \<and> fst (sortCitiesArray (arrays_of
      [\<lparr>country = [], city = ''x''\<rparr>, \<lparr>country = ''A'', city = ''x''\<rparr>]) 0) 0
     = [\<lparr>country = ''A'', city = ''x''\<rparr>, \<lparr>country = [], city = ''x''\<rparr>]"
  by (simp add: sortCitiesArray_def Array_sort_def arrays_of_def compare_cities_def first_char_def
      first_chars_le_def)

subsection \<open>cssSelectorBuilder\<close>

lemma fragments_new_object [simp]: "fragments (fst (new_object h)) obj = fragments h obj"
  by (simp add: new_object_def fragments_def)

lemma checkType_eq:
  "checkType h this t
     = (if t \<in> type ` set (fragments h this) then Inl DuplicateError else Inr ())"
proof -
  have dup: "(Suc 0 \<le> length (filter (\<lambda>e. type e = t) fs)) = (t \<in> type ` set fs)" for fs
    by (induction fs) auto
  show ?thesis by (simp add: checkType_def dup)
qed

lemma checkOrder_eq:
  "checkOrder h this n
     = (if list_ex (\<lambda>f. type f \<in> set (drop n order)) (fragments h this)
        then Inl OrderError else Inr ())"
  by (auto simp: checkOrder_def Let_def list_ex_iff)

lemma later_kinds_calls:
  "later_kinds (kind (Element v)) = drop 1 order"
  "later_kinds (kind (Id v)) = drop 2 order"
  "later_kinds (kind (Class v)) = drop 3 order"
  "later_kinds (kind (Attr v)) = drop 4 order"
  "later_kinds (kind (PseudoClass v)) = drop 5 order"
  "later_kinds (kind (PseudoElement v)) = []"
  by (simp_all add: later_kinds_def order_def)

lemma checkOrder_new_object [simp]: "checkOrder (fst (new_object h)) this n = checkOrder h this n"
  by (simp add: checkOrder_def)

lemma checkType_new_object [simp]: "checkType (fst (new_object h)) this t = checkType h this t"
  by (simp add: checkType_def)

lemma new_object_eq: "new_object h = (fst (new_object h), next_object h)"
  by (simp add: new_object_def)

text \<open>
  Every fragment-adding call at once: the duplicate check comes first, then the order
  check, then the extension.
\<close>

lemma invoke_eq:
  "invoke h this c
     = (if duplicate (fragments h this) c then Inl DuplicateError
        else if out_of_order (fragments h this) c then Inl OrderError
        else Inr (extend (fst (new_object h)) this (next_object h) (fragment_of c)))"
proof (cases c)
  case (Element v)
  show ?thesis
    unfolding Element invoke.simps element_def checkType_eq checkOrder_eq
      duplicate_def out_of_order_def later_kinds_calls
    by (subst new_object_eq) simp
next
  case (Id v)
  show ?thesis
    unfolding Id invoke.simps id'_def duplicate_def out_of_order_def later_kinds_calls
    by (subst new_object_eq) (simp add: checkType_eq checkOrder_eq)
next
  case (Class v)
  show ?thesis
    unfolding Class invoke.simps class'_def checkOrder_eq
      duplicate_def out_of_order_def later_kinds_calls
    by (subst new_object_eq) simp
next
  case (Attr v)
  show ?thesis
    unfolding Attr invoke.simps attr_def checkOrder_eq
      duplicate_def out_of_order_def later_kinds_calls
    by (subst new_object_eq) simp
next
  case (PseudoClass v)
  show ?thesis
    unfolding PseudoClass invoke.simps pseudoClass_def checkOrder_eq
      duplicate_def out_of_order_def later_kinds_calls
    by (subst new_object_eq) simp
next
  case (PseudoElement v)
  show ?thesis
    unfolding PseudoElement invoke.simps pseudoElement_def checkType_eq
      duplicate_def out_of_order_def later_kinds_calls
    by (subst new_object_eq) (simp add: list_ex_iff)
qed

lemma extend_result:
  assumes "allocated h this"
    and "extend (fst (new_object h)) this (next_object h) item = (h', r)"
  shows "r = next_object h"
    and "fragments h' r = fragments h this @ [item]"
    and "fragments h' this = []"
    and "allocated h' r"
    and "allocated h' this"
  using assms
  by (auto simp: extend_def Let_def new_object_def Object_assign_def push_def reset_def
      new_array_def fragments_def allocated_def)

lemma extend_frame:
  assumes "allocated h this" and "allocated h obj" and "obj \<noteq> this"
    and "selectors h obj \<noteq> selectors h this"
    and "extend (fst (new_object h)) this (next_object h) item = (h', r)"
  shows "fragments h' obj = fragments h obj"
  using assms
  by (auto simp: extend_def Let_def new_object_def Object_assign_def push_def reset_def
      new_array_def fragments_def allocated_def)

lemma chain_append:
  "chain h b (cs @ ds)
     = (case chain h b cs of Inl e \<Rightarrow> Inl e | Inr (h', r) \<Rightarrow> chain h' r ds)"
  by (induction cs arbitrary: h b) (auto split: sum.splits)

lemma chain_fragments:
  "allocated h b \<Longrightarrow> chain h b cs = Inr (h', r) \<Longrightarrow>
   fragments h' r = fragments h b @ map fragment_of cs \<and> allocated h' r"
proof (induction cs arbitrary: h b)
  case Nil
  then show ?case by simp
next
  case (Cons c cs)
  from Cons.prems(2) obtain h1 r1
    where step: "invoke h b c = Inr (h1, r1)" and rest: "chain h1 r1 cs = Inr (h', r)"
    by (auto split: sum.splits)
  from step have "extend (fst (new_object h)) b (next_object h) (fragment_of c) = (h1, r1)"
    by (simp add: invoke_eq split: if_splits)
  with Cons.prems(1) have "fragments h1 r1 = fragments h b @ [fragment_of c]" and "allocated h1 r1"
    by (rule extend_result(2), rule extend_result(4))
  with Cons.IH [OF _ rest] show ?case by simp
qed

text \<open>
  C1, as amended.  Take any chain of fragment-adding calls that has run without error
  from a builder object; the object it returns holds the fragments of the starting
  builder followed by one fragment for each call.  A further call that adds a second
  element, id or pseudo-element fails with the duplicate error.  A further call that
  is not such a duplicate, and whose kind comes earlier in the fixed order than a kind
  already present, fails with the ordering error.  In both cases the error is raised
  by that call, whatever calls would follow.  Any other call succeeds and appends its
  fragment.  (A call that is both a duplicate and out of order gets the duplicate
  error: \<^verbatim>\<open>checkType\<close> runs before \<^verbatim>\<open>checkOrder\<close>.)
\<close>

theorem builder_checks:
  "allocated h b \<Longrightarrow> chain h b cs = Inr (h', r) \<Longrightarrow>
     fragments h' r = fragments h b @ map fragment_of cs
     \<and> (duplicate (fragments h' r) c \<longrightarrow>
          invoke h' r c = Inl DuplicateError
          \<and> chain h b (cs @ c # rest) = Inl DuplicateError)
     \<and> (\<not> duplicate (fragments h' r) c \<longrightarrow> out_of_order (fragments h' r) c \<longrightarrow>
          invoke h' r c = Inl OrderError
          \<and> chain h b (cs @ c # rest) = Inl OrderError)
     \<and> (\<not> duplicate (fragments h' r) c \<longrightarrow> \<not> out_of_order (fragments h' r) c \<longrightarrow>
          (\<exists>h'' r'. invoke h' r c = Inr (h'', r')
             \<and> chain h b (cs @ [c]) = Inr (h'', r')
             \<and> fragments h'' r' = fragments h' r @ [fragment_of c]))"
proof -
  assume a: "allocated h b" and run: "chain h b cs = Inr (h', r)"
  from chain_fragments [OF a run]
  have acc: "fragments h' r = fragments h b @ map fragment_of cs" and a': "allocated h' r"
    by simp_all
  obtain h'' r' where ext: "extend (fst (new_object h')) r (next_object h') (fragment_of c) = (h'', r')"
    by (cases "extend (fst (new_object h')) r (next_object h') (fragment_of c)")
  have grown: "fragments h'' r' = fragments h' r @ [fragment_of c]"
    using a' ext by (rule extend_result(2))
  show ?thesis
    using acc grown ext by (simp add: chain_append run invoke_eq)
qed

lemmas builder_defs =
  loaded_def cssSelectorBuilder_def element_def id'_def class'_def attr_def pseudoClass_def
  pseudoElement_def combine_def stringify_def checkType_def checkOrder_def extend_def
  new_object_def new_array_def Object_assign_def push_def reset_def fragments_def order_def
  Let_def

text \<open>
  From the loaded builder: \<^verbatim>\<open>id('id1').id('id2')\<close> is a duplicate,
  \<^verbatim>\<open>id('id1').element('div')\<close> is out of order, \<^verbatim>\<open>id('id1').class('main')\<close> is fine.
\<close>

theorem builder_checks_witness:
  "allocated loaded cssSelectorBuilder
   \<and> (\<exists>h' r. chain loaded cssSelectorBuilder [Id ''id1''] = Inr (h', r)
         \<and> duplicate (fragments h' r) (Id ''id2'')
         \<and> \<not> duplicate (fragments h' r) (Element ''div'')
         \<and> out_of_order (fragments h' r) (Element ''div'')
         \<and> \<not> duplicate (fragments h' r) (Class ''main'')
         \<and> \<not> out_of_order (fragments h' r) (Class ''main''))
   \<and> chain loaded cssSelectorBuilder ([Id ''id1''] @ [Id ''id2'']) = Inl DuplicateError
   \<and> chain loaded cssSelectorBuilder ([Id ''id1''] @ [Element ''div'']) = Inl OrderError
   \<and> (\<exists>h'' r'. chain loaded cssSelectorBuilder ([Id ''id1''] @ [Class ''main'']) = Inr (h'', r')
         \<and> map selector (fragments h'' r') = [''#id1'', ''.main''])"
proof -
  have a: "allocated loaded cssSelectorBuilder"
    by (simp add: allocated_def loaded_def cssSelectorBuilder_def)
  obtain h' r where run: "chain loaded cssSelectorBuilder [Id ''id1''] = Inr (h', r)"
    by (simp add: builder_defs)
  note t = builder_checks [OF a run]
  from t [of "Id ''id2''" "[]"]
  have acc: "fragments h' r = [fragment_of (Id ''id1'')]"
    by (simp add: builder_defs)
  have d1: "duplicate (fragments h' r) (Id ''id2'')"
    and d2: "\<not> duplicate (fragments h' r) (Element ''div'')"
    and o2: "out_of_order (fragments h' r) (Element ''div'')"
    and d3: "\<not> duplicate (fragments h' r) (Class ''main'')"
    and o3: "\<not> out_of_order (fragments h' r) (Class ''main'')"
    by (simp_all add: acc duplicate_def out_of_order_def later_kinds_def order_def)
  from t [of "Id ''id2''" "[]"] d1
  have r1: "chain loaded cssSelectorBuilder ([Id ''id1''] @ [Id ''id2'']) = Inl DuplicateError"
    by simp
  from t [of "Element ''div''" "[]"] d2 o2
  have r2: "chain loaded cssSelectorBuilder ([Id ''id1''] @ [Element ''div'']) = Inl OrderError"
    by simp
  from t [of "Class ''main''" "[]"] d3 o3 acc
  have r3: "\<exists>h'' r'. chain loaded cssSelectorBuilder ([Id ''id1''] @ [Class ''main'']) = Inr (h'', r')
         \<and> map selector (fragments h'' r') = [''#id1'', ''.main'']"
    by auto
  from a run d1 d2 o2 d3 o3 r1 r2 r3 show ?thesis by blast
qed

text \<open>
  C1 as stated fails where both rules are broken: in
  \<^verbatim>\<open>element('div').id('main').element('span')\<close> the last call adds a kind that comes
  earlier than the \<open>id\<close> already present, and the error raised is the duplicate error,
  not the ordering error.
\<close>

theorem builder_duplicate_before_order:
  "out_of_order [fragment_of (Element ''div''), fragment_of (Id ''main'')] (Element ''span'')
   \<and> chain loaded cssSelectorBuilder [Element ''div'', Id ''main'', Element ''span'']
       = Inl DuplicateError
   \<and> chain loaded cssSelectorBuilder [Element ''div'', Id ''main'', Element ''span'']
       \<noteq> Inl OrderError"
  by (simp add: builder_defs out_of_order_def later_kinds_def)

lemma reset_receiver: "fragments (reset h this) this = []"
  by (simp add: reset_def new_array_def fragments_def)

lemma extend_receiver: "fragments (fst (extend h this copyThis item)) this = []"
  by (simp add: extend_def Let_def reset_receiver)

lemma invoke_receiver: "invoke h this c = Inr (h1, r1) \<Longrightarrow> fragments h1 this = []"
proof -
  assume "invoke h this c = Inr (h1, r1)"
  then have "extend (fst (new_object h)) this (next_object h) (fragment_of c) = (h1, r1)"
    by (simp add: invoke_eq split: if_splits)
  then show ?thesis
    using extend_receiver [of "fst (new_object h)" this "next_object h" "fragment_of c"] by simp
qed

lemma combine_receiver: "fragments (fst (combine h this s1 comb s2)) this = []"
  by (simp add: combine_def new_object_def Let_def reset_receiver)

lemma stringify_receiver: "fragments (fst (stringify h this)) this = []"
  by (simp add: stringify_def Let_def reset_receiver)

lemma invoke_again:
  assumes a: "allocated h this" and first: "invoke h this c = Inr (h1, r1)"
  shows "\<exists>h2 r2. invoke h1 this c' = Inr (h2, r2)
           \<and> fragments h2 r2 = [fragment_of c']
           \<and> fragments h2 r1 = fragments h this @ [fragment_of c]"
proof -
  from first have e1: "extend (fst (new_object h)) this (next_object h) (fragment_of c) = (h1, r1)"
    by (simp add: invoke_eq split: if_splits)
  note r1 = extend_result(1) [OF a e1] and f1 = extend_result(2) [OF a e1]
    and empty = extend_result(3) [OF a e1] and a1 = extend_result(4) [OF a e1]
    and a1' = extend_result(5) [OF a e1]
  from a r1 have ne: "r1 \<noteq> this"
    by (simp add: allocated_def)
  from a e1 have ne': "selectors h1 r1 \<noteq> selectors h1 this"
    by (auto simp: extend_def Let_def new_object_def Object_assign_def push_def reset_def
        new_array_def allocated_def)
  obtain h2 r2 where e2: "extend (fst (new_object h1)) this (next_object h1) (fragment_of c') = (h2, r2)"
    by (cases "extend (fst (new_object h1)) this (next_object h1) (fragment_of c')")
  have second: "invoke h1 this c' = Inr (h2, r2)"
    by (simp add: invoke_eq empty duplicate_def out_of_order_def e2)
  from extend_result(2) [OF a1' e2] empty have "fragments h2 r2 = [fragment_of c']"
    by simp
  moreover from extend_frame [OF a1' a1 ne ne' e2] f1
  have "fragments h2 r1 = fragments h this @ [fragment_of c]"
    by simp
  ultimately show ?thesis
    using second by blast
qed

text \<open>
  C10.  Every operation that returns leaves its receiver with an empty fragment list:
  each fragment-adding method, \<^verbatim>\<open>combine\<close> and \<^verbatim>\<open>stringify\<close>.  So a second
  \<^verbatim>\<open>stringify\<close> on the same builder returns the empty string; and after one
  continuation of a saved builder, a second continuation of it starts from nothing:
  its result holds only its own fragment, while the fragments the saved builder had
  went to the result of the first continuation.
\<close>

theorem builder_resets_receiver:
  "(invoke h this c = Inr (h1, r1) \<longrightarrow> fragments h1 this = [])
   \<and> fragments (fst (combine h this s1 comb s2)) this = []
   \<and> fragments (fst (stringify h this)) this = []
   \<and> snd (stringify (fst (stringify h this)) this) = []
   \<and> (allocated h this \<longrightarrow> invoke h this c = Inr (h1, r1) \<longrightarrow>
        (\<exists>h2 r2. invoke h1 this c' = Inr (h2, r2)
           \<and> fragments h2 r2 = [fragment_of c']
           \<and> fragments h2 r1 = fragments h this @ [fragment_of c]))"
proof -
  have "snd (stringify (fst (stringify h this)) this) = []"
    using stringify_receiver [of h this] by (simp add: stringify_def Let_def)
  then show ?thesis
    using invoke_receiver combine_receiver stringify_receiver invoke_again by blast
qed

text \<open>
  \<^verbatim>\<open>const b = builder.element('div'); b.id('x'); b.class('y')\<close>: the second result
  is \<open>.y\<close>, not \<open>div.y\<close>.
\<close>

theorem builder_resets_receiver_witness:
  "\<exists>h0 b h1 r1 h2 r2.
      chain loaded cssSelectorBuilder [Element ''div''] = Inr (h0, b)
      \<and> allocated h0 b
      \<and> invoke h0 b (Id ''x'') = Inr (h1, r1)
      \<and> fragments h1 b = []
      \<and> invoke h1 b (Class ''y'') = Inr (h2, r2)
      \<and> map selector (fragments h2 r2) = [''.y'']
      \<and> map selector (fragments h2 r1) = [''div'', ''#x'']"
proof -
  obtain h0 b where run: "chain loaded cssSelectorBuilder [Element ''div''] = Inr (h0, b)"
    by (simp add: builder_defs)
  have "allocated loaded cssSelectorBuilder"
    by (simp add: allocated_def loaded_def cssSelectorBuilder_def)
  from chain_fragments [OF this run]
  have f0: "fragments h0 b = [fragment_of (Element ''div'')]" and a0: "allocated h0 b"
    by (simp_all add: builder_defs)
  obtain h1 r1 where first: "invoke h0 b (Id ''x'') = Inr (h1, r1)"
    by (cases "extend (fst (new_object h0)) b (next_object h0) (fragment_of (Id ''x''))")
      (simp add: invoke_eq f0 duplicate_def out_of_order_def later_kinds_def order_def)
  from builder_resets_receiver [of h0 b "Id ''x''" h1 r1 b "''+''" b "Class ''y''"] a0 first f0
  have e: "fragments h1 b = []"
    and "\<exists>h2 r2. invoke h1 b (Class ''y'') = Inr (h2, r2)
           \<and> map selector (fragments h2 r2) = [''.y'']
           \<and> map selector (fragments h2 r1) = [''div'', ''#x'']"
    by auto
  then obtain h2 r2 where second: "invoke h1 b (Class ''y'') = Inr (h2, r2)"
    and lost: "map selector (fragments h2 r2) = [''.y'']"
    and kept: "map selector (fragments h2 r1) = [''div'', ''#x'']"
    by auto
  show ?thesis
    by (intro exI [of _ h0] exI [of _ b] exI [of _ h1] exI [of _ r1] exI [of _ h2]
        exI [of _ r2] conjI run a0 first e second lost kept)
qed

lemma combine_stringify:
  assumes "allocated h this" and "fragments h this = []"
    and "allocated h s1" and "allocated h s2"
  shows "snd (stringify (fst (combine h this s1 comb s2)) (snd (combine h this s1 comb s2)))
           = concat (map selector (fragments h s1)) @ '' '' @ comb @ '' ''
             @ concat (map selector (fragments h s2))"
  using assms
  by (auto simp: combine_def stringify_def Let_def new_object_def Object_assign_def push_def
      reset_def new_array_def fragments_def allocated_def)

text \<open>
  C6.  \<^verbatim>\<open>id('main').class('container').class('editable').stringify()\<close> returns
  \<open>#main.container.editable\<close>, and
  \<^verbatim>\<open>combine(element('div'), '+', element('table')).stringify()\<close> returns \<open>div + table\<close>.
  In general \<^verbatim>\<open>combine\<close>, called on a builder whose own list is empty (as the
  facade's is), yields the texts of the first selector, the combinator between single
  spaces, and the texts of the second selector.
\<close>

theorem builder_examples:
  "stringify_chain loaded cssSelectorBuilder [Id ''main'', Class ''container'', Class ''editable'']
     = Inr ''#main.container.editable''
   \<and> (case element loaded cssSelectorBuilder ''div'' of Inl e \<Rightarrow> Inl e | Inr (h1, s1) \<Rightarrow>
       case element h1 cssSelectorBuilder ''table'' of Inl e \<Rightarrow> Inl e | Inr (h2, s2) \<Rightarrow>
       case combine h2 cssSelectorBuilder s1 ''+'' s2 of (h3, c) \<Rightarrow> Inr (snd (stringify h3 c)))
     = Inr ''div + table''
   \<and> (allocated h this \<longrightarrow> fragments h this = [] \<longrightarrow>
        allocated h s1 \<longrightarrow> allocated h s2 \<longrightarrow>
        snd (stringify (fst (combine h this s1 comb s2)) (snd (combine h this s1 comb s2)))
          = concat (map selector (fragments h s1)) @ '' '' @ comb @ '' ''
            @ concat (map selector (fragments h s2)))"
proof -
  have "stringify_chain loaded cssSelectorBuilder [Id ''main'', Class ''container'', Class ''editable'']
     = Inr ''#main.container.editable''"
    by (simp add: stringify_chain_def builder_defs)
  moreover have "(case element loaded cssSelectorBuilder ''div'' of Inl e \<Rightarrow> Inl e | Inr (h1, s1) \<Rightarrow>
       case element h1 cssSelectorBuilder ''table'' of Inl e \<Rightarrow> Inl e | Inr (h2, s2) \<Rightarrow>
       case combine h2 cssSelectorBuilder s1 ''+'' s2 of (h3, c) \<Rightarrow> Inr (snd (stringify h3 c)))
     = Inr ''div + table''"
    by (simp add: builder_defs)
  ultimately show ?thesis
    using combine_stringify by blast
qed

text \<open>\<^verbatim>\<open>combine(element('tr'), '~', element('td')).stringify()\<close> is \<open>tr ~ td\<close>.\<close>

theorem builder_examples_witness:
  "let p1 = projr (element loaded cssSelectorBuilder ''tr'');
       p2 = projr (element (fst p1) cssSelectorBuilder ''td'');
       h = fst p2
   in allocated h cssSelectorBuilder \<and> fragments h cssSelectorBuilder = []
      \<and> allocated h (snd p1) \<and> allocated h (snd p2)
      \<and> snd (stringify (fst (combine h cssSelectorBuilder (snd p1) ''~'' (snd p2)))
                (snd (combine h cssSelectorBuilder (snd p1) ''~'' (snd p2))))
          = ''tr ~ td''"
proof -
  let ?p1 = "projr (element loaded cssSelectorBuilder ''tr'')"
  let ?p2 = "projr (element (fst ?p1) cssSelectorBuilder ''td'')"
  have a: "allocated (fst ?p2) cssSelectorBuilder" and e: "fragments (fst ?p2) cssSelectorBuilder = []"
    and a1: "allocated (fst ?p2) (snd ?p1)" and a2: "allocated (fst ?p2) (snd ?p2)"
    and f1: "fragments (fst ?p2) (snd ?p1) = [\<lparr>selector = ''tr'', type = ''element''\<rparr>]"
    and f2: "fragments (fst ?p2) (snd ?p2) = [\<lparr>selector = ''td'', type = ''element''\<rparr>]"
    by (simp_all add: builder_defs allocated_def)
  from builder_examples [of "fst ?p2" cssSelectorBuilder "snd ?p1" "snd ?p2" "''~''"] a e a1 a2
  have "snd (stringify (fst (combine (fst ?p2) cssSelectorBuilder (snd ?p1) ''~'' (snd ?p2)))
                (snd (combine (fst ?p2) cssSelectorBuilder (snd ?p1) ''~'' (snd ?p2))))
          = ''tr ~ td''"
    by (simp add: f1 f2)
  with a e a1 a2 show ?thesis
    by (simp only: Let_def simp_thms)
qed

end
